theory Spec2Isabelle
  imports Main
begin

section \<open>The accordion item of \<open>core/src/components/accordion/accordion.tsx\<close>\<close>

subsection \<open>Data\<close>

text \<open>The \<open>const enum AccordionState\<close>: four mutually exclusive lifecycle states.\<close>

datatype AccordionState = Collapsed | Collapsing | Expanded | Expanding

text \<open>
  The \<open>value\<close> property of the enclosing \<open>ion-accordion-group\<close>: a single identifier,
  an array of identifiers, or nothing (\<open>undefined\<close> or \<open>null\<close>).
\<close>

datatype group_value = NoValue | Single string | Multiple "string list"

text \<open>
  \<open>Array.isArray(value) ? value.includes(v) : value === v\<close>, the test that
  \<open>updateState\<close> applies three times (to the item's own value and to the value of
  each neighbour).
\<close>

fun includes_value :: "group_value \<Rightarrow> string \<Rightarrow> bool" where
  "includes_value (Multiple vs) v = (v \<in> set vs)"
| "includes_value (Single s) v = (s = v)"
| "includes_value NoValue v = False"

text \<open>
  An element of the document as \<open>getNextSibling\<close> and \<open>getPreviousSibling\<close> see it:
  its tag name and, for an accordion, its \<open>value\<close> property (\<open>None\<close> is
  \<open>undefined\<close>).
\<close>

record html_element =
  tagName :: string
  elem_value :: "string option"

text \<open>
  The two \<open>div\<close>s of the shadow tree (\<open>#content\<close> and \<open>#content-wrapper\<close>): the
  height the layout engine reports, and the inline \<open>max-height\<close> in pixels
  (\<open>None\<close> when the property is not set).
\<close>

record html_div =
  offsetHeight :: nat
  max_height :: "nat option"

text \<open>
  The enclosing group element: its selection, whether this item's \<open>updateListener\<close>
  is registered for \<open>ionChange\<close>, and the toggle requests it has received.
\<close>

record accordion_group =
  group_value :: group_value
  ionChange_listener :: bool
  toggle_requests :: "(string option \<times> bool) list"

type_synonym addr = nat

text \<open>
  The two closures handed to \<open>raf\<close>, with the elements they capture, and the code
  that follows \<open>await waitForTransition\<close> in each.
\<close>

datatype frame_callback = ExpandFrame addr addr | CollapseFrame addr

datatype continuation = ExpandDone addr | CollapseDone addr

record transition_wait =
  wait_el :: addr
  deadline :: nat
  resume :: continuation

text \<open>What the component does to the outside world, in the order in which it does it.\<close>

datatype effect =
    StateAssigned AccordionState
  | CancelAnimationFrame nat
  | Raf nat
  | OffsetHeightRead addr
  | TransitionEndAsync addr nat
  | SetMaxHeight addr nat
  | RemoveMaxHeight addr
  | LayoutFlush addr

text \<open>The fields of the class \<open>Accordion\<close> that the state machine uses.\<close>

record accordion =
  accordionGroupEl :: "addr option"
  contentEl :: "addr option"
  contentElWrapper :: "addr option"
  currentRaf :: "nat option"
  el :: "nat option"
  state :: AccordionState
  isNext :: bool
  isPrevious :: bool
  value_prop :: "string option"

text \<open>
  One accordion item and what it can reach: the children of its parent in document
  order (\<open>el\<close> is the item's own position there), the group that
  \<open>el.closest('ion-accordion-group')\<close> finds, the stores of group and \<open>div\<close>
  elements, the pending animation frames, the pending transition waits, the clock in
  milliseconds, and the trace of effects.
\<close>

record world =
  self :: accordion
  children :: "html_element list"
  closest_group :: "addr option"
  groups :: "addr \<Rightarrow> accordion_group"
  divs :: "addr \<Rightarrow> html_div"
  frames :: "(nat \<times> frame_callback) list"
  next_handle :: nat
  waits :: "transition_wait list"
  now :: nat
  trace :: "effect list"

subsection \<open>The scheduler and the document\<close>

definition emit :: "effect \<Rightarrow> world \<Rightarrow> world" where
  "emit e w = w\<lparr>trace := trace w @ [e]\<rparr>"

definition assign_state :: "AccordionState \<Rightarrow> world \<Rightarrow> world" where
  "assign_state s w = emit (StateAssigned s) (w\<lparr>self := (self w)\<lparr>state := s\<rparr>\<rparr>)"

text \<open>
  Modelled from the spec: \<open>raf\<close> of \<open>utils/helpers\<close> is not part of the sources.
  The spec has a transition scheduled "on the next animation frame" under a
  "pending-frame handle": \<open>raf\<close> queues the callback under a fresh handle and returns
  the handle.
\<close>

definition raf :: "frame_callback \<Rightarrow> world \<Rightarrow> nat \<times> world" where
  "raf cb w =
     (next_handle w,
      emit (Raf (next_handle w))
        (w\<lparr>frames := frames w @ [(next_handle w, cb)],
           next_handle := Suc (next_handle w)\<rparr>))"

text \<open>
  Modelled from the spec: \<open>cancelAnimationFrame\<close> belongs to the browser, not to the
  sources. The spec has "cancel any previously scheduled frame for this item" and "only
  the scheduling of the next state flip is cancelled": the callback queued under the
  handle is dropped, and nothing happens when that callback has already run.
\<close>

definition cancelAnimationFrame :: "nat \<Rightarrow> world \<Rightarrow> world" where
  "cancelAnimationFrame h w =
     emit (CancelAnimationFrame h) (w\<lparr>frames := filter (\<lambda>f. fst f \<noteq> h) (frames w)\<rparr>)"

text \<open>
  Modelled from the spec: \<open>transitionEndAsync\<close> of \<open>utils/helpers\<close> is not part of
  the sources. The spec has "begin awaiting a transition-completion signal (bounded by
  a fixed upper timeout ...)", resolved by "the transition-completion signal or its
  timeout, whichever occurs first". The wait is registered when the promise is created;
  the code that follows the \<open>await\<close> is stored with it, since nothing can resolve the
  promise between its creation and the \<open>await\<close> of the same synchronous run.
\<close>

definition transitionEndAsync :: "addr \<Rightarrow> nat \<Rightarrow> continuation \<Rightarrow> world \<Rightarrow> world" where
  "transitionEndAsync e expectedDuration k w =
     emit (TransitionEndAsync e expectedDuration)
       (w\<lparr>waits := waits w @
            [\<lparr>wait_el = e, deadline = now w + expectedDuration, resume = k\<rparr>]\<rparr>)"

definition read_offsetHeight :: "addr \<Rightarrow> world \<Rightarrow> nat \<times> world" where
  "read_offsetHeight e w = (offsetHeight (divs w e), emit (OffsetHeightRead e) w)"

definition setProperty_max_height :: "addr \<Rightarrow> nat \<Rightarrow> world \<Rightarrow> world" where
  "setProperty_max_height e px w =
     emit (SetMaxHeight e px) (w\<lparr>divs := (divs w)(e := (divs w e)\<lparr>max_height := Some px\<rparr>)\<rparr>)"

definition removeProperty_max_height :: "addr \<Rightarrow> world \<Rightarrow> world" where
  "removeProperty_max_height e w =
     emit (RemoveMaxHeight e) (w\<lparr>divs := (divs w)(e := (divs w e)\<lparr>max_height := None\<rparr>)\<rparr>)"

text \<open>\<open>void contentEl.offsetHeight\<close>: a read whose value is dropped, made to force a layout.\<close>

definition force_repaint :: "addr \<Rightarrow> world \<Rightarrow> world" where
  "force_repaint e w = emit (LayoutFlush e) w"

definition nextElementSibling :: "html_element list \<Rightarrow> nat \<Rightarrow> html_element option" where
  "nextElementSibling xs i = (if Suc i < length xs then Some (xs ! Suc i) else None)"

definition previousElementSibling :: "html_element list \<Rightarrow> nat \<Rightarrow> html_element option" where
  "previousElementSibling xs i =
     (if 0 < i \<and> i < length xs then Some (xs ! (i - 1)) else None)"

subsection \<open>The methods of the component\<close>

definition expandAccordion :: "bool \<Rightarrow> world \<Rightarrow> world" where
  "expandAccordion initialUpdate w =
     (if initialUpdate then assign_state Expanded w
      else if state (self w) = Expanded then w
      else case contentEl (self w) of
        None \<Rightarrow> w
      | Some c \<Rightarrow>
         (case contentElWrapper (self w) of
            None \<Rightarrow> w
          | Some cw \<Rightarrow>
             (let w1 = assign_state Expanding w;
                  w2 = (case currentRaf (self w1) of
                          None \<Rightarrow> w1
                        | Some h \<Rightarrow> cancelAnimationFrame h w1);
                  (h, w3) = raf (ExpandFrame c cw) w2
              in w3\<lparr>self := (self w3)\<lparr>currentRaf := Some h\<rparr>\<rparr>)))"

definition collapseAccordion :: "bool \<Rightarrow> world \<Rightarrow> world" where
  "collapseAccordion initialUpdate w =
     (if initialUpdate then assign_state Collapsed w
      else if state (self w) = Collapsed then w
      else case contentEl (self w) of
        None \<Rightarrow> w
      | Some c \<Rightarrow>
         (let w2 = (case currentRaf (self w) of
                      None \<Rightarrow> w
                    | Some h \<Rightarrow> cancelAnimationFrame h w);
              (h, w3) = raf (CollapseFrame c) w2
          in w3\<lparr>self := (self w3)\<lparr>currentRaf := Some h\<rparr>\<rparr>))"

text \<open>The body of each closure up to its \<open>await\<close>.\<close>

fun run_callback :: "frame_callback \<Rightarrow> world \<Rightarrow> world" where
  "run_callback (ExpandFrame c cw) w =
     (let (contentHeight, w1) = read_offsetHeight cw w;
          w2 = transitionEndAsync c 50000 (ExpandDone c) w1;
          w3 = setProperty_max_height c contentHeight w2
      in force_repaint c w3)"
| "run_callback (CollapseFrame c) w =
     (let (contentHeight, w1) = read_offsetHeight c w;
          w2 = setProperty_max_height c contentHeight w1;
          w3 = force_repaint c w2;
          w4 = transitionEndAsync c 50000 (CollapseDone c) w3
      in assign_state Collapsing w4)"

text \<open>The rest of each closure, after the \<open>await\<close>.\<close>

fun run_continuation :: "continuation \<Rightarrow> world \<Rightarrow> world" where
  "run_continuation (ExpandDone c) w = removeProperty_max_height c (assign_state Expanded w)"
| "run_continuation (CollapseDone c) w = removeProperty_max_height c (assign_state Collapsed w)"

definition getNextSibling :: "world \<Rightarrow> html_element option" where
  "getNextSibling w =
     (case el (self w) of
        None \<Rightarrow> None
      | Some i \<Rightarrow>
         (case nextElementSibling (children w) i of
            None \<Rightarrow> None
          | Some nextSibling \<Rightarrow>
              if tagName nextSibling \<noteq> ''ION-ACCORDION'' then None else Some nextSibling))"

definition getPreviousSibling :: "world \<Rightarrow> html_element option" where
  "getPreviousSibling w =
     (case el (self w) of
        None \<Rightarrow> None
      | Some i \<Rightarrow>
         (case previousElementSibling (children w) i of
            None \<Rightarrow> None
          | Some previousSibling \<Rightarrow>
              if tagName previousSibling \<noteq> ''ION-ACCORDION'' then None
              else Some previousSibling))"

text \<open>\<open>sibling && sibling.value\<close>.\<close>

definition sibling_value :: "html_element option \<Rightarrow> string option" where
  "sibling_value s = (case s of None \<Rightarrow> None | Some e \<Rightarrow> elem_value e)"

definition updateState :: "bool \<Rightarrow> world \<Rightarrow> world" where
  "updateState initialUpdate w =
     (case value_prop (self w) of
        None \<Rightarrow> w
      | Some accordionValue \<Rightarrow>
         (case accordionGroupEl (self w) of
            None \<Rightarrow> w
          | Some accordionGroup \<Rightarrow>
             (let gv = group_value (groups w accordionGroup);
                  shouldExpand = includes_value gv accordionValue
              in if shouldExpand then
                   (let w1 = expandAccordion initialUpdate w
                    in w1\<lparr>self := (self w1)\<lparr>isNext := False, isPrevious := False\<rparr>\<rparr>)
                 else
                   (let w1 = collapseAccordion initialUpdate w;
                        w2 = (case sibling_value (getNextSibling w1) of
                                None \<Rightarrow> w1
                              | Some nextAccordionValue \<Rightarrow>
                                  w1\<lparr>self := (self w1)
                                     \<lparr>isPrevious := includes_value gv nextAccordionValue\<rparr>\<rparr>)
                    in case sibling_value (getPreviousSibling w2) of
                         None \<Rightarrow> w2
                       | Some previousAccordionValue \<Rightarrow>
                           w2\<lparr>self := (self w2)
                              \<lparr>isNext := includes_value gv previousAccordionValue\<rparr>\<rparr>))))"

text \<open>\<open>addEventListener(group, 'ionChange', this.updateListener)\<close> and its inverse.\<close>

definition set_listener :: "addr \<Rightarrow> bool \<Rightarrow> world \<Rightarrow> world" where
  "set_listener g b w = w\<lparr>groups := (groups w)(g := (groups w g)\<lparr>ionChange_listener := b\<rparr>)\<rparr>"

definition connectedCallback :: "world \<Rightarrow> world" where
  "connectedCallback w =
     (let found = (case el (self w) of None \<Rightarrow> None | Some i \<Rightarrow> closest_group w);
          w1 = w\<lparr>self := (self w)\<lparr>accordionGroupEl := found\<rparr>\<rparr>
      in case found of
           None \<Rightarrow> w1
         | Some g \<Rightarrow> set_listener g True (updateState True w1))"

definition disconnectedCallback :: "world \<Rightarrow> world" where
  "disconnectedCallback w =
     (case accordionGroupEl (self w) of
        None \<Rightarrow> w
      | Some g \<Rightarrow> set_listener g False w)"

text \<open>
  Modelled from the spec: \<open>requestAccordionToggle\<close> is a method of the group, which
  is not part of the sources. The spec has \<open>requestToggle(identifier, expand) -> void\<close>,
  "fire-and-forget; group is free to ignore": the request is recorded with the group,
  and what the group makes of it reaches the item only as a later change notification.
\<close>

definition requestAccordionToggle :: "addr \<Rightarrow> string option \<Rightarrow> bool \<Rightarrow> world \<Rightarrow> world" where
  "requestAccordionToggle g v expand w =
     w\<lparr>groups := (groups w)
          (g := (groups w g)\<lparr>toggle_requests := toggle_requests (groups w g) @ [(v, expand)]\<rparr>)\<rparr>"

definition toggleExpanded :: "world \<Rightarrow> world" where
  "toggleExpanded w =
     (case accordionGroupEl (self w) of
        None \<Rightarrow> w
      | Some g \<Rightarrow>
         (let expand = (state (self w) = Collapsed \<or> state (self w) = Collapsing)
          in requestAccordionToggle g (value_prop (self w)) expand w))"

subsection \<open>What happens to the component\<close>

text \<open>The browser runs the callback queued under handle \<open>h\<close>, if it is still queued.\<close>

definition animation_frame :: "nat \<Rightarrow> world \<Rightarrow> world" where
  "animation_frame h w =
     (case map_of (frames w) h of
        None \<Rightarrow> w
      | Some cb \<Rightarrow> run_callback cb (w\<lparr>frames := filter (\<lambda>f. fst f \<noteq> h) (frames w)\<rparr>))"

text \<open>The next animation frame: every queued callback runs, in the order of the requests.\<close>

definition run_frames :: "world \<Rightarrow> world" where
  "run_frames w = fold (\<lambda>f. run_callback (snd f)) (frames w) (w\<lparr>frames := []\<rparr>)"

text \<open>
  The waits that satisfy \<open>P\<close> are resolved: they leave the list, and their continuations
  run in the order in which the waits were registered. For timeouts this is the order of
  the deadlines as long as the clock only moves forward, every wait having the same
  timeout.
\<close>

definition resolve_waits :: "(transition_wait \<Rightarrow> bool) \<Rightarrow> world \<Rightarrow> world" where
  "resolve_waits P w =
     fold (\<lambda>x. run_continuation (resume x)) (filter P (waits w))
       (w\<lparr>waits := filter (\<lambda>x. \<not> P x) (waits w)\<rparr>)"

text \<open>The completion signal fires on element \<open>e\<close>.\<close>

definition transitionend :: "addr \<Rightarrow> world \<Rightarrow> world" where
  "transitionend e w = resolve_waits (\<lambda>x. wait_el x = e) w"

text \<open>\<open>d\<close> milliseconds pass without a completion signal: the waits whose time is up resolve.\<close>

definition elapse :: "nat \<Rightarrow> world \<Rightarrow> world" where
  "elapse d w = resolve_waits (\<lambda>x. deadline x \<le> now w + d) (w\<lparr>now := now w + d\<rparr>)"

text \<open>All scheduled work settles: the queued frames run, then every wait resolves.\<close>

definition settle :: "world \<Rightarrow> world" where
  "settle w = resolve_waits (\<lambda>x. True) (run_frames w)"

text \<open>
  The group changes its selection and emits \<open>ionChange\<close>; the item's
  \<open>updateListener\<close>, if registered there, runs \<open>updateState(false)\<close>.
\<close>

definition ionChange :: "addr \<Rightarrow> group_value \<Rightarrow> world \<Rightarrow> world" where
  "ionChange g v w =
     (let w1 = w\<lparr>groups := (groups w)(g := (groups w g)\<lparr>group_value := v\<rparr>)\<rparr>
      in if ionChange_listener (groups w1 g) then updateState False w1 else w1)"

text \<open>
  The \<open>ref\<close> callbacks of \<open>render\<close>: after the first render the component holds
  the \<open>#content\<close> element and its wrapper.
\<close>

definition render_refs :: "addr \<Rightarrow> addr \<Rightarrow> world \<Rightarrow> world" where
  "render_refs c cw w = w\<lparr>self := (self w)\<lparr>contentEl := Some c, contentElWrapper := Some cw\<rparr>\<rparr>"

datatype event =
    Connect
  | Disconnect
  | Render addr addr
  | Click
  | GroupChange addr group_value
  | Frame
  | TransitionEnd addr
  | Elapse nat

fun step :: "event \<Rightarrow> world \<Rightarrow> world" where
  "step Connect w = connectedCallback w"
| "step Disconnect w = disconnectedCallback w"
| "step (Render c cw) w = render_refs c cw w"
| "step Click w = toggleExpanded w"
| "step (GroupChange g v) w = ionChange g v w"
| "step Frame w = run_frames w"
| "step (TransitionEnd e) w = transitionend e w"
| "step (Elapse d) w = elapse d w"

definition run :: "event list \<Rightarrow> world \<Rightarrow> world" where
  "run es w = fold step es w"

text \<open>
  Every event but those of the scheduler (a frame, a completion signal, the passing of
  time).
\<close>

fun group_driven :: "event \<Rightarrow> bool" where
  "group_driven Frame = False"
| "group_driven (TransitionEnd e) = False"
| "group_driven (Elapse d) = False"
| "group_driven e = True"

text \<open>
  A transient state is backed by scheduled work, and no wait is registered for longer
  than the timeout of 50000 ms.
\<close>

definition backed :: "world \<Rightarrow> bool" where
  "backed w =
     ((state (self w) = Expanding \<or> state (self w) = Collapsing \<longrightarrow>
         frames w \<noteq> [] \<or> waits w \<noteq> []) \<and>
      list_all (\<lambda>x. deadline x \<le> now w + 50000) (waits w))"

subsection \<open>A page with three panels\<close>

text \<open>The field initialisers of the class.\<close>

definition new_accordion :: accordion where
  "new_accordion =
     \<lparr>accordionGroupEl = None, contentEl = None, contentElWrapper = None,
      currentRaf = None, el = None, state = Collapsed, isNext = False,
      isPrevious = False, value_prop = None\<rparr>"

definition panels :: "html_element list" where
  "panels =
     [\<lparr>tagName = ''ION-ACCORDION'', elem_value = Some ''panel-1''\<rparr>,
      \<lparr>tagName = ''ION-ACCORDION'', elem_value = Some ''panel-2''\<rparr>,
      \<lparr>tagName = ''ION-ACCORDION'', elem_value = Some ''panel-3''\<rparr>]"

text \<open>
  The item at position \<open>i\<close> of \<open>panels\<close>, newly created with value \<open>v\<close>, inside
  group \<open>0\<close> whose selection is \<open>gv\<close>; its content elements are \<open>1\<close> and \<open>2\<close>.
\<close>

definition page :: "nat \<Rightarrow> string option \<Rightarrow> group_value \<Rightarrow> world" where
  "page i v gv =
     \<lparr>self = new_accordion\<lparr>el := Some i, value_prop := v\<rparr>,
      children = panels,
      closest_group = Some 0,
      groups = (\<lambda>g. \<lparr>group_value = gv, ionChange_listener = False, toggle_requests = []\<rparr>),
      divs = (\<lambda>d. \<lparr>offsetHeight = 120, max_height = None\<rparr>),
      frames = [], next_handle = 0, waits = [], now = 0, trace = []\<rparr>"

text \<open>The same item once attached and rendered.\<close>

definition mounted :: "nat \<Rightarrow> string option \<Rightarrow> group_value \<Rightarrow> world" where
  "mounted i v gv = run [Connect, Render 1 2] (page i v gv)"

text \<open>An item record at position \<open>i\<close> with value \<open>v\<close>, attached to group \<open>0\<close>.\<close>

definition item :: "nat \<Rightarrow> string \<Rightarrow> accordion" where
  "item i v = new_accordion\<lparr>accordionGroupEl := Some 0, el := Some i, value_prop := Some v\<rparr>"

text \<open>
  The first panel, attached and rendered while \<open>panel-2\<close> was selected, after the
  other two panels have been removed from the document.
\<close>

definition alone :: world where
  "alone = (mounted 0 (Some ''panel-1'') (Single ''panel-2''))\<lparr>children := take 1 panels\<rparr>"

text \<open>
  The first panel, attached and rendered while nothing was selected, once the group's
  value has become \<open>panel-1\<close> and before the change notification arrives.
\<close>

definition reselected :: world where
  "reselected =
     (mounted 0 (Some ''panel-1'') NoValue)
       \<lparr>groups := \<lambda>g. \<lparr>group_value = Single ''panel-1'', ionChange_listener = True,
            toggle_requests = []\<rparr>\<rparr>"

text \<open>
  The first panel, attached and rendered while selected, after the selection has gone
  and the collapse frame has run: Collapsing, with its wait pending.
\<close>

definition collapsing :: world where
  "collapsing = run [GroupChange 0 NoValue, Frame] (mounted 0 (Some ''panel-1'') (Single ''panel-1''))"

section \<open>Properties\<close>

subsection \<open>Unfolding\<close>

lemmas prim_defs = emit_def assign_state_def raf_def cancelAnimationFrame_def
  transitionEndAsync_def read_offsetHeight_def setProperty_max_height_def
  removeProperty_max_height_def force_repaint_def

lemmas sibling_defs = getNextSibling_def getPreviousSibling_def sibling_value_def
  nextElementSibling_def previousElementSibling_def

lemmas method_defs = expandAccordion_def collapseAccordion_def updateState_def
  set_listener_def connectedCallback_def disconnectedCallback_def
  requestAccordionToggle_def toggleExpanded_def

lemmas event_defs = animation_frame_def run_frames_def resolve_waits_def transitionend_def
  elapse_def settle_def ionChange_def render_refs_def run_def

lemmas page_defs = new_accordion_def panels_def page_def mounted_def

lemmas all_defs = prim_defs sibling_defs method_defs event_defs page_defs Let_def

subsection \<open>What the operations leave alone\<close>

lemma flags_run_callback:
  "isNext (self (run_callback cb w)) = isNext (self w) \<and>
   isPrevious (self (run_callback cb w)) = isPrevious (self w)"
  by (cases cb) (simp_all add: prim_defs)

lemma flags_run_continuation:
  "isNext (self (run_continuation k w)) = isNext (self w) \<and>
   isPrevious (self (run_continuation k w)) = isPrevious (self w)"
  by (cases k) (simp_all add: prim_defs)

lemma flags_fold_callbacks:
  "isNext (self (fold (\<lambda>f. run_callback (snd f)) fs w)) = isNext (self w) \<and>
   isPrevious (self (fold (\<lambda>f. run_callback (snd f)) fs w)) = isPrevious (self w)"
  by (induction fs arbitrary: w) (simp_all add: flags_run_callback)

lemma flags_fold_continuations:
  "isNext (self (fold (\<lambda>x. run_continuation (resume x)) xs w)) = isNext (self w) \<and>
   isPrevious (self (fold (\<lambda>x. run_continuation (resume x)) xs w)) = isPrevious (self w)"
  by (induction xs arbitrary: w) (simp_all add: flags_run_continuation)

lemma flags_settle:
  "isNext (self (settle w)) = isNext (self w) \<and>
   isPrevious (self (settle w)) = isPrevious (self w)"
  by (simp add: settle_def resolve_waits_def run_frames_def flags_fold_continuations
      flags_fold_callbacks)

lemma expandAccordion_keeps:
  "el (self (expandAccordion i w)) = el (self w) \<and>
   children (expandAccordion i w) = children w \<and>
   groups (expandAccordion i w) = groups w \<and>
   isNext (self (expandAccordion i w)) = isNext (self w) \<and>
   isPrevious (self (expandAccordion i w)) = isPrevious (self w)"
  by (simp add: expandAccordion_def prim_defs Let_def split: option.splits)

lemma collapseAccordion_keeps:
  "el (self (collapseAccordion i w)) = el (self w) \<and>
   children (collapseAccordion i w) = children w \<and>
   groups (collapseAccordion i w) = groups w \<and>
   isNext (self (collapseAccordion i w)) = isNext (self w) \<and>
   isPrevious (self (collapseAccordion i w)) = isPrevious (self w)"
  by (simp add: collapseAccordion_def prim_defs Let_def split: option.splits)

lemma siblings_collapseAccordion:
  "getNextSibling (collapseAccordion i w) = getNextSibling w \<and>
   getPreviousSibling (collapseAccordion i w) = getPreviousSibling w"
  by (simp add: getNextSibling_def getPreviousSibling_def collapseAccordion_keeps
      cong: option.case_cong)

lemma next_sibling_value_iff:
  "sibling_value (getNextSibling w) = Some n \<longleftrightarrow>
     (\<exists>i. el (self w) = Some i \<and> Suc i < length (children w) \<and>
          tagName (children w ! Suc i) = ''ION-ACCORDION'' \<and>
          elem_value (children w ! Suc i) = Some n)"
  by (auto simp add: sibling_defs split: option.splits if_splits)

lemma previous_sibling_value_iff:
  "sibling_value (getPreviousSibling w) = Some p \<longleftrightarrow>
     (\<exists>i. el (self w) = Some i \<and> 0 < i \<and> i < length (children w) \<and>
          tagName (children w ! (i - 1)) = ''ION-ACCORDION'' \<and>
          elem_value (children w ! (i - 1)) = Some p)"
  by (auto simp add: sibling_defs split: option.splits if_splits)

lemma getNextSibling_same:
  "el (self w') = el (self w) \<Longrightarrow> children w' = children w \<Longrightarrow>
   getNextSibling w' = getNextSibling w"
  by (simp add: getNextSibling_def split: option.splits)

lemma getPreviousSibling_same:
  "el (self w') = el (self w) \<Longrightarrow> children w' = children w \<Longrightarrow>
   getPreviousSibling w' = getPreviousSibling w"
  by (simp add: getPreviousSibling_def split: option.splits)

lemma updateState_expand_branch:
  assumes "value_prop (self w) = Some v" and "accordionGroupEl (self w) = Some g"
    and "includes_value (group_value (groups w g)) v"
  shows "updateState i w =
     (expandAccordion i w)\<lparr>self := (self (expandAccordion i w))
        \<lparr>isNext := False, isPrevious := False\<rparr>\<rparr>"
  using assms by (simp add: updateState_def Let_def)

lemma updateState_collapse_branch:
  assumes "value_prop (self w) = Some v" and "accordionGroupEl (self w) = Some g"
    and "\<not> includes_value (group_value (groups w g)) v"
  shows "updateState i w =
     (collapseAccordion i w)\<lparr>self := (self (collapseAccordion i w))
        \<lparr>isPrevious :=
           (case sibling_value (getNextSibling w) of
              None \<Rightarrow> isPrevious (self w)
            | Some n \<Rightarrow> includes_value (group_value (groups w g)) n),
         isNext :=
           (case sibling_value (getPreviousSibling w) of
              None \<Rightarrow> isNext (self w)
            | Some p \<Rightarrow> includes_value (group_value (groups w g)) p)\<rparr>\<rparr>"
proof -
  let ?c = "collapseAccordion i w"
  have n: "getNextSibling ?c = getNextSibling w"
    by (rule getNextSibling_same) (simp_all add: collapseAccordion_keeps)
  have p: "getPreviousSibling (?c\<lparr>self := (self ?c)\<lparr>isPrevious := b\<rparr>\<rparr>) = getPreviousSibling w"
    for b
    by (rule getPreviousSibling_same) (simp_all add: collapseAccordion_keeps)
  have p': "getPreviousSibling ?c = getPreviousSibling w"
    by (rule getPreviousSibling_same) (simp_all add: collapseAccordion_keeps)
  show ?thesis
    using assms
    by (cases "sibling_value (getNextSibling w)"; cases "sibling_value (getPreviousSibling w)")
      (simp_all add: updateState_def Let_def n p p' collapseAccordion_keeps)
qed

subsection \<open>The toggle request\<close>

text \<open>
  Claim C5. For an item with a group, \<open>toggleExpanded\<close> reads the state, computes
  \<open>expand\<close> as "the state is Collapsed or Collapsing", hands the pair of the item's
  value and \<open>expand\<close> to the group's \<open>requestAccordionToggle\<close>, and changes
  nothing of the item itself: its state, its flags, its frames and its waits are as
  before, and the group's selection is untouched.
\<close>

theorem toggleExpanded_defers_to_group:
  assumes "accordionGroupEl (self w) = Some g"
  shows "toggle_requests (groups (toggleExpanded w) g) =
           toggle_requests (groups w g) @
             [(value_prop (self w), state (self w) = Collapsed \<or> state (self w) = Collapsing)] \<and>
         group_value (groups (toggleExpanded w) g) = group_value (groups w g) \<and>
         self (toggleExpanded w) = self w \<and>
         frames (toggleExpanded w) = frames w \<and>
         waits (toggleExpanded w) = waits w \<and>
         trace (toggleExpanded w) = trace w"
  using assms by (simp add: toggleExpanded_def requestAccordionToggle_def)

theorem toggleExpanded_defers_to_group_witness:
  "accordionGroupEl (self (mounted 0 (Some ''panel-1'') (Single ''panel-2''))) = Some 0 \<and>
   toggle_requests (groups (toggleExpanded (mounted 0 (Some ''panel-1'') (Single ''panel-2''))) 0) =
     [(Some ''panel-1'', True)] \<and>
   state (self (toggleExpanded (mounted 0 (Some ''panel-1'') (Single ''panel-2'')))) = Collapsed"
proof -
  have g: "accordionGroupEl (self (mounted 0 (Some ''panel-1'') (Single ''panel-2''))) = Some 0"
    by (simp add: all_defs)
  have s: "self (mounted 0 (Some ''panel-1'') (Single ''panel-2'')) =
      \<lparr>accordionGroupEl = Some 0, contentEl = Some 1, contentElWrapper = Some 2,
       currentRaf = None, el = Some 0, state = Collapsed, isNext = False,
       isPrevious = True, value_prop = Some ''panel-1''\<rparr>"
    by (simp add: all_defs)
  have r: "toggle_requests (groups (mounted 0 (Some ''panel-1'') (Single ''panel-2'')) 0) = []"
    by (simp add: all_defs)
  show ?thesis
    using toggleExpanded_defers_to_group [OF g] by (simp add: s r)
qed

subsection \<open>The selection applied to one item\<close>

text \<open>
  Claim C3, as the code has it. For an item with a group and a value, \<open>updateState\<close>
  decides \<open>shouldExpand\<close> by membership when the group's value is an array and by
  equality when it is a single value (and never expands when the group has no value).
  When \<open>shouldExpand\<close> holds it calls \<open>expandAccordion\<close> and sets both flags to
  false, so both flags are false right after such an update. Otherwise it calls
  \<open>collapseAccordion\<close> and assigns each flag from the neighbour on the other side,
  where that neighbour is an accordion with a value.
\<close>

theorem updateState_expands_or_collapses:
  assumes "value_prop (self w) = Some v" and "accordionGroupEl (self w) = Some g"
  shows "updateState i w =
          (if (case group_value (groups w g) of
                 Multiple vs \<Rightarrow> v \<in> set vs
               | Single s \<Rightarrow> s = v
               | NoValue \<Rightarrow> False)
           then (expandAccordion i w)\<lparr>self := (self (expandAccordion i w))
                   \<lparr>isNext := False, isPrevious := False\<rparr>\<rparr>
           else (collapseAccordion i w)\<lparr>self := (self (collapseAccordion i w))
                   \<lparr>isPrevious :=
                      (case sibling_value (getNextSibling w) of
                         None \<Rightarrow> isPrevious (self w)
                       | Some n \<Rightarrow> includes_value (group_value (groups w g)) n),
                    isNext :=
                      (case sibling_value (getPreviousSibling w) of
                         None \<Rightarrow> isNext (self w)
                       | Some p \<Rightarrow> includes_value (group_value (groups w g)) p)\<rparr>\<rparr>) \<and>
         (includes_value (group_value (groups w g)) v \<longrightarrow>
            \<not> isNext (self (updateState i w)) \<and> \<not> isPrevious (self (updateState i w)))"
proof -
  have c: "(case group_value (groups w g) of
                 Multiple vs \<Rightarrow> v \<in> set vs
               | Single s \<Rightarrow> s = v
               | NoValue \<Rightarrow> False) = includes_value (group_value (groups w g)) v"
    by (cases "group_value (groups w g)") simp_all
  show ?thesis
  proof (cases "includes_value (group_value (groups w g)) v")
    case True
    then show ?thesis
      unfolding c by (simp add: updateState_expand_branch [OF assms True])
  next
    case False
    then show ?thesis
      unfolding c using updateState_collapse_branch [OF assms False, of i] by simp
  qed
qed

theorem updateState_expands_or_collapses_witness:
  "value_prop (self (mounted 2 (Some ''panel-3'') NoValue)) = Some ''panel-3'' \<and>
   accordionGroupEl (self (mounted 2 (Some ''panel-3'') NoValue)) = Some 0 \<and>
   state (self (updateState False
     ((mounted 2 (Some ''panel-3'') NoValue)
        \<lparr>groups := \<lambda>g. \<lparr>group_value = Multiple [''panel-1'', ''panel-3''],
             ionChange_listener = True, toggle_requests = []\<rparr>\<rparr>))) = Expanding \<and>
   \<not> isNext (self (updateState False
     ((mounted 2 (Some ''panel-3'') NoValue)
        \<lparr>groups := \<lambda>g. \<lparr>group_value = Multiple [''panel-1'', ''panel-3''],
             ionChange_listener = True, toggle_requests = []\<rparr>\<rparr>))) \<and>
   \<not> isPrevious (self (updateState False
     ((mounted 2 (Some ''panel-3'') NoValue)
        \<lparr>groups := \<lambda>g. \<lparr>group_value = Multiple [''panel-1'', ''panel-3''],
             ionChange_listener = True, toggle_requests = []\<rparr>\<rparr>)))"
proof -
  let ?m = "mounted 2 (Some ''panel-3'') NoValue"
  let ?w = "?m\<lparr>groups := \<lambda>g. \<lparr>group_value = Multiple [''panel-1'', ''panel-3''],
             ionChange_listener = True, toggle_requests = []\<rparr>\<rparr>"
  have s: "self ?m =
      \<lparr>accordionGroupEl = Some 0, contentEl = Some 1, contentElWrapper = Some 2,
       currentRaf = None, el = Some 2, state = Collapsed, isNext = False,
       isPrevious = False, value_prop = Some ''panel-3''\<rparr>"
    by (simp add: all_defs)
  have h1: "value_prop (self ?w) = Some ''panel-3''" by (simp add: s)
  have h2: "accordionGroupEl (self ?w) = Some 0" by (simp add: s)
  have e: "state (self (expandAccordion False ?w)) = Expanding"
    by (simp add: s expandAccordion_def prim_defs Let_def)
  show ?thesis
    using updateState_expands_or_collapses [OF h1 h2, of False] e
    by (simp add: s)
qed

text \<open>
  The last part of claim C3 fails as stated: the collapse only schedules a frame, so right
  after an update with \<open>shouldExpand\<close> false the first panel is still Expanded, and
  its \<open>isPrevious\<close> flag is already true.
\<close>

theorem flags_while_expanded_counterexample:
  "state (self (run [GroupChange 0 (Single ''panel-2'')]
      (mounted 0 (Some ''panel-1'') (Single ''panel-1'')))) = Expanded \<and>
   isPrevious (self (run [GroupChange 0 (Single ''panel-2'')]
      (mounted 0 (Some ''panel-1'') (Single ''panel-1''))))"
  by (simp add: all_defs)

text \<open>
  Claim C10. In an update with \<open>shouldExpand\<close> false, \<open>isPrevious\<close> is assigned only
  when the next element exists, is an \<open>ION-ACCORDION\<close> and has a value, and \<open>isNext\<close>
  only when the previous element does; otherwise the flag keeps the value it had.
\<close>

theorem updateState_assigns_flag_only_from_identified_neighbour:
  assumes "value_prop (self w) = Some v" and "accordionGroupEl (self w) = Some g"
    and "\<not> includes_value (group_value (groups w g)) v"
  shows "isPrevious (self (updateState i w)) =
           (case sibling_value (getNextSibling w) of
              None \<Rightarrow> isPrevious (self w)
            | Some n \<Rightarrow> includes_value (group_value (groups w g)) n) \<and>
         isNext (self (updateState i w)) =
           (case sibling_value (getPreviousSibling w) of
              None \<Rightarrow> isNext (self w)
            | Some p \<Rightarrow> includes_value (group_value (groups w g)) p) \<and>
         (\<forall>n. sibling_value (getNextSibling w) = Some n \<longleftrightarrow>
              (\<exists>j. el (self w) = Some j \<and> Suc j < length (children w) \<and>
                   tagName (children w ! Suc j) = ''ION-ACCORDION'' \<and>
                   elem_value (children w ! Suc j) = Some n)) \<and>
         (\<forall>p. sibling_value (getPreviousSibling w) = Some p \<longleftrightarrow>
              (\<exists>j. el (self w) = Some j \<and> 0 < j \<and> j < length (children w) \<and>
                   tagName (children w ! (j - 1)) = ''ION-ACCORDION'' \<and>
                   elem_value (children w ! (j - 1)) = Some p))"
proof -
  have "isPrevious (self (updateState i w)) =
           (case sibling_value (getNextSibling w) of
              None \<Rightarrow> isPrevious (self w)
            | Some n \<Rightarrow> includes_value (group_value (groups w g)) n)"
    by (simp add: updateState_collapse_branch [OF assms])
  moreover have "isNext (self (updateState i w)) =
           (case sibling_value (getPreviousSibling w) of
              None \<Rightarrow> isNext (self w)
            | Some p \<Rightarrow> includes_value (group_value (groups w g)) p)"
    by (simp add: updateState_collapse_branch [OF assms])
  ultimately show ?thesis
    using next_sibling_value_iff [of w] previous_sibling_value_iff [of w] by blast
qed

theorem updateState_assigns_flag_only_from_identified_neighbour_witness:
  "value_prop (self alone) = Some ''panel-1'' \<and>
   accordionGroupEl (self alone) = Some 0 \<and>
   \<not> includes_value (group_value (groups alone 0)) ''panel-1'' \<and>
   sibling_value (getNextSibling alone) = None \<and>
   isPrevious (self alone) \<and>
   isPrevious (self (updateState False alone))"
proof -
  have s: "self alone =
      \<lparr>accordionGroupEl = Some 0, contentEl = Some 1, contentElWrapper = Some 2,
       currentRaf = None, el = Some 0, state = Collapsed, isNext = False,
       isPrevious = True, value_prop = Some ''panel-1''\<rparr>"
    by (simp add: alone_def all_defs)
  have g: "group_value (groups alone 0) = Single ''panel-2''"
    by (simp add: alone_def all_defs)
  have n: "sibling_value (getNextSibling alone) = None"
    by (simp add: alone_def all_defs)
  have h1: "value_prop (self alone) = Some ''panel-1''" by (simp add: s)
  have h2: "accordionGroupEl (self alone) = Some 0" by (simp add: s)
  have h3: "\<not> includes_value (group_value (groups alone 0)) ''panel-1''" by (simp add: g)
  from updateState_assigns_flag_only_from_identified_neighbour [OF h1 h2 h3, of False]
  have "isPrevious (self (updateState False alone)) = isPrevious (self alone)"
    by (simp add: n)
  then show ?thesis
    using h1 h2 h3 n by (simp add: s)
qed

subsection \<open>Three adjacent items\<close>

text \<open>
  Claim C1, as the code has it. Let A, B, C be adjacent accordion items with values, in
  document order, all in the same group; let B's value be the only selected one, carried
  by no other child of the parent; and let A's \<open>isNext\<close> and C's \<open>isPrevious\<close> be
  false before. Then after the update of each item, and after all its scheduled work,
  A has \<open>isPrevious\<close> true and \<open>isNext\<close> false, C has \<open>isNext\<close> true and
  \<open>isPrevious\<close> false, and B has both flags false.
\<close>

theorem updateState_neighbours_of_selected:
  assumes pos: "el A = Some j" "el B = Some (Suc j)" "el C = Some (Suc (Suc j))"
      "Suc (Suc j) < length (children w)"
    and tags: "tagName (children w ! j) = ''ION-ACCORDION''"
      "tagName (children w ! Suc j) = ''ION-ACCORDION''"
      "tagName (children w ! Suc (Suc j)) = ''ION-ACCORDION''"
    and vals: "elem_value (children w ! j) = Some a" "elem_value (children w ! Suc j) = Some b"
      "elem_value (children w ! Suc (Suc j)) = Some c"
    and own: "value_prop A = Some a" "value_prop B = Some b" "value_prop C = Some c"
    and grp: "accordionGroupEl A = Some g" "accordionGroupEl B = Some g"
      "accordionGroupEl C = Some g"
    and sel: "\<forall>v. includes_value (group_value (groups w g)) v \<longleftrightarrow> v = b"
    and others: "\<forall>k<length (children w). k \<noteq> Suc j \<longrightarrow> elem_value (children w ! k) \<noteq> Some b"
    and before: "\<not> isNext A" "\<not> isPrevious C"
  shows "isPrevious (self (settle (updateState i (w\<lparr>self := A\<rparr>)))) \<and>
         \<not> isNext (self (settle (updateState i (w\<lparr>self := A\<rparr>)))) \<and>
         isNext (self (settle (updateState i (w\<lparr>self := C\<rparr>)))) \<and>
         \<not> isPrevious (self (settle (updateState i (w\<lparr>self := C\<rparr>)))) \<and>
         \<not> isNext (self (settle (updateState i (w\<lparr>self := B\<rparr>)))) \<and>
         \<not> isPrevious (self (settle (updateState i (w\<lparr>self := B\<rparr>))))"
proof -
  let ?gv = "group_value (groups w g)"
  have ab: "a \<noteq> b" using others pos(4) vals(1) by auto
  have cb: "c \<noteq> b" using others pos(4) vals(3) by auto
  have selA: "\<not> includes_value (group_value (groups (w\<lparr>self := A\<rparr>) g)) a"
    using sel ab by simp
  have selC: "\<not> includes_value (group_value (groups (w\<lparr>self := C\<rparr>) g)) c"
    using sel cb by simp
  have selB: "includes_value (group_value (groups (w\<lparr>self := B\<rparr>) g)) b"
    using sel by simp
  have nA: "sibling_value (getNextSibling (w\<lparr>self := A\<rparr>)) = Some b"
    using pos tags vals by (simp add: next_sibling_value_iff)
  have pC: "sibling_value (getPreviousSibling (w\<lparr>self := C\<rparr>)) = Some b"
    using pos tags vals by (simp add: previous_sibling_value_iff)
  have pA: "sibling_value (getPreviousSibling (w\<lparr>self := A\<rparr>)) \<noteq> Some b"
    using pos others by (auto simp add: previous_sibling_value_iff)
  have nC: "sibling_value (getNextSibling (w\<lparr>self := C\<rparr>)) \<noteq> Some b"
    using pos others by (auto simp add: next_sibling_value_iff)
  have A: "isPrevious (self (updateState i (w\<lparr>self := A\<rparr>))) \<and>
           \<not> isNext (self (updateState i (w\<lparr>self := A\<rparr>)))"
    using updateState_collapse_branch [of "w\<lparr>self := A\<rparr>" a g i] selA own grp nA pA sel before
    by (simp split: option.splits)
  have C: "isNext (self (updateState i (w\<lparr>self := C\<rparr>))) \<and>
           \<not> isPrevious (self (updateState i (w\<lparr>self := C\<rparr>)))"
    using updateState_collapse_branch [of "w\<lparr>self := C\<rparr>" c g i] selC own grp nC pC sel before
    by (simp split: option.splits)
  have B: "\<not> isNext (self (updateState i (w\<lparr>self := B\<rparr>))) \<and>
           \<not> isPrevious (self (updateState i (w\<lparr>self := B\<rparr>)))"
    using updateState_expand_branch [of "w\<lparr>self := B\<rparr>" b g i] selB own grp
    by simp
  show ?thesis
    using A B C by (simp add: flags_settle)
qed

theorem updateState_neighbours_of_selected_witness:
  "isPrevious (self (settle (updateState False
      ((page 0 None (Single ''panel-2''))\<lparr>self := item 0 ''panel-1''\<rparr>)))) \<and>
   \<not> isNext (self (settle (updateState False
      ((page 0 None (Single ''panel-2''))\<lparr>self := item 0 ''panel-1''\<rparr>)))) \<and>
   isNext (self (settle (updateState False
      ((page 0 None (Single ''panel-2''))\<lparr>self := item 2 ''panel-3''\<rparr>)))) \<and>
   \<not> isPrevious (self (settle (updateState False
      ((page 0 None (Single ''panel-2''))\<lparr>self := item 2 ''panel-3''\<rparr>)))) \<and>
   \<not> isNext (self (settle (updateState False
      ((page 0 None (Single ''panel-2''))\<lparr>self := item 1 ''panel-2''\<rparr>)))) \<and>
   \<not> isPrevious (self (settle (updateState False
      ((page 0 None (Single ''panel-2''))\<lparr>self := item 1 ''panel-2''\<rparr>))))"
proof -
  let ?w = "page 0 None (Single ''panel-2'')"
  have k: "children ?w = panels" and g: "group_value (groups ?w 0) = Single ''panel-2''"
    by (simp_all add: page_def)
  have others: "\<forall>k<length (children ?w). k \<noteq> Suc 0 \<longrightarrow>
      elem_value (children ?w ! k) \<noteq> Some ''panel-2''"
    by (simp add: k panels_def less_Suc_eq)
  have sel: "\<forall>v. includes_value (group_value (groups ?w 0)) v \<longleftrightarrow> v = ''panel-2''"
    by (auto simp add: g)
  show ?thesis
    by (rule updateState_neighbours_of_selected
        [of "item 0 ''panel-1''" 0 "item 1 ''panel-2''" "item 2 ''panel-3''" ?w
          "''panel-1''" "''panel-2''" "''panel-3''" 0, OF _ _ _ _ _ _ _ _ _ _ _ _ _ _ _ _ sel others])
      (simp_all add: item_def new_accordion_def k panels_def)
qed


text \<open>
  Claim C1 names the flags the other way round. With only \<open>panel-2\<close> selected, the
  panel before it ends with \<open>isPrevious\<close> true and \<open>isNext\<close> false, the panel after
  it with \<open>isNext\<close> true and \<open>isPrevious\<close> false.
\<close>

theorem selected_neighbour_flags_counterexample:
  "isPrevious (self (settle (run [GroupChange 0 (Single ''panel-2'')]
      (mounted 0 (Some ''panel-1'') NoValue)))) \<and>
   \<not> isNext (self (settle (run [GroupChange 0 (Single ''panel-2'')]
      (mounted 0 (Some ''panel-1'') NoValue)))) \<and>
   isNext (self (settle (run [GroupChange 0 (Single ''panel-2'')]
      (mounted 2 (Some ''panel-3'') NoValue)))) \<and>
   \<not> isPrevious (self (settle (run [GroupChange 0 (Single ''panel-2'')]
      (mounted 2 (Some ''panel-3'') NoValue))))"
  by (simp add: all_defs)

subsection \<open>First attachment\<close>

text \<open>
  Claim C8. For an item with a host element, an enclosing group and a value,
  \<open>connectedCallback\<close> puts the item at once into the terminal state that matches the
  group's selection, Expanded if its value is selected and Collapsed if not; the only
  effect is that one assignment: no frame is requested, no wait begins, nothing is
  measured or styled.
\<close>

theorem connectedCallback_adopts_terminal_state:
  assumes "el (self w) = Some j" and "closest_group w = Some g"
    and "value_prop (self w) = Some v"
  shows "state (self (connectedCallback w)) =
           (if includes_value (group_value (groups w g)) v then Expanded else Collapsed) \<and>
         trace (connectedCallback w) =
           trace w @ [StateAssigned
             (if includes_value (group_value (groups w g)) v then Expanded else Collapsed)] \<and>
         frames (connectedCallback w) = frames w \<and>
         waits (connectedCallback w) = waits w \<and>
         next_handle (connectedCallback w) = next_handle w \<and>
         currentRaf (self (connectedCallback w)) = currentRaf (self w) \<and>
         divs (connectedCallback w) = divs w"
proof -
  let ?w1 = "w\<lparr>self := (self w)\<lparr>accordionGroupEl := Some g\<rparr>\<rparr>"
  have cc: "connectedCallback w = set_listener g True (updateState True ?w1)"
    using assms by (simp add: connectedCallback_def)
  have h1: "value_prop (self ?w1) = Some v" using assms by simp
  have h2: "accordionGroupEl (self ?w1) = Some g" by simp
  show ?thesis
  proof (cases "includes_value (group_value (groups w g)) v")
    case True
    then have "includes_value (group_value (groups ?w1 g)) v" by simp
    from updateState_expand_branch [OF h1 h2 this, of True] True show ?thesis
      by (simp add: cc set_listener_def expandAccordion_def prim_defs)
  next
    case False
    then have "\<not> includes_value (group_value (groups ?w1 g)) v" by simp
    from updateState_collapse_branch [OF h1 h2 this, of True] False show ?thesis
      by (simp add: cc set_listener_def collapseAccordion_def prim_defs)
  qed
qed

theorem connectedCallback_adopts_terminal_state_witness:
  "state (self (connectedCallback (page 0 (Some ''panel-1'') (Single ''panel-2'')))) = Collapsed \<and>
   state (self (connectedCallback (page 1 (Some ''panel-2'') (Single ''panel-2'')))) = Expanded \<and>
   state (self (connectedCallback (page 2 (Some ''panel-3'') (Single ''panel-2'')))) = Collapsed \<and>
   frames (connectedCallback (page 0 (Some ''panel-1'') (Single ''panel-2''))) = [] \<and>
   frames (connectedCallback (page 1 (Some ''panel-2'') (Single ''panel-2''))) = [] \<and>
   frames (connectedCallback (page 2 (Some ''panel-3'') (Single ''panel-2''))) = [] \<and>
   waits (connectedCallback (page 0 (Some ''panel-1'') (Single ''panel-2''))) = [] \<and>
   waits (connectedCallback (page 1 (Some ''panel-2'') (Single ''panel-2''))) = [] \<and>
   waits (connectedCallback (page 2 (Some ''panel-3'') (Single ''panel-2''))) = []"
proof -
  have p: "el (self (page j v gv)) = Some j" "closest_group (page j v gv) = Some 0"
    "value_prop (self (page j v gv)) = v" "group_value (groups (page j v gv) 0) = gv"
    "frames (page j v gv) = []" "waits (page j v gv) = []" for j v gv
    by (simp_all add: page_def new_accordion_def)
  show ?thesis
    using connectedCallback_adopts_terminal_state
            [of "page 0 (Some ''panel-1'') (Single ''panel-2'')" 0 0 "''panel-1''"]
          connectedCallback_adopts_terminal_state
            [of "page 1 (Some ''panel-2'') (Single ''panel-2'')" 1 0 "''panel-2''"]
          connectedCallback_adopts_terminal_state
            [of "page 2 (Some ''panel-3'') (Single ''panel-2'')" 2 0 "''panel-3''"]
    by (simp add: p)
qed

subsection \<open>An item without a value\<close>

lemma step_without_value:
  assumes "value_prop (self w) = None" and "group_driven e"
  shows "value_prop (self (step e w)) = None \<and>
         state (self (step e w)) = state (self w) \<and>
         isNext (self (step e w)) = isNext (self w) \<and>
         isPrevious (self (step e w)) = isPrevious (self w) \<and>
         frames (step e w) = frames w \<and>
         waits (step e w) = waits w \<and>
         trace (step e w) = trace w"
  using assms
  by (cases e)
    (simp_all add: connectedCallback_def disconnectedCallback_def set_listener_def
      render_refs_def toggleExpanded_def requestAccordionToggle_def ionChange_def
      updateState_def Let_def split: option.splits)

lemma run_without_value:
  assumes "value_prop (self w) = None" and "list_all group_driven es"
  shows "value_prop (self (run es w)) = None \<and>
         state (self (run es w)) = state (self w) \<and>
         isNext (self (run es w)) = isNext (self w) \<and>
         isPrevious (self (run es w)) = isPrevious (self w) \<and>
         frames (run es w) = frames w \<and>
         waits (run es w) = waits w \<and>
         trace (run es w) = trace w"
  using assms
proof (induction es arbitrary: w)
  case Nil
  then show ?case by (simp add: run_def)
next
  case (Cons e es)
  from Cons.prems have e: "group_driven e" and es: "list_all group_driven es" by simp_all
  note s = step_without_value [OF Cons.prems(1) e]
  from s have "value_prop (self (step e w)) = None" by simp
  from Cons.IH [OF this es] s show ?case by (simp add: run_def)
qed

text \<open>
  Claim C9. For an item whose value is undefined, \<open>updateState\<close> returns the world as
  it is, a change notification with any selection leaves the item as it is, so does
  \<open>toggleExpanded\<close>, and no sequence of attachments, renders, clicks and change
  notifications changes its state or its flags or schedules anything.
\<close>

theorem item_without_value_is_inert:
  assumes "value_prop (self w) = None"
  shows "updateState i w = w \<and>
         self (ionChange g gv w) = self w \<and>
         self (toggleExpanded w) = self w \<and>
         (list_all group_driven es \<longrightarrow>
            state (self (run es w)) = state (self w) \<and>
            isNext (self (run es w)) = isNext (self w) \<and>
            isPrevious (self (run es w)) = isPrevious (self w) \<and>
            frames (run es w) = frames w \<and>
            waits (run es w) = waits w \<and>
            trace (run es w) = trace w)"
proof -
  have u: "updateState b x = x" if "value_prop (self x) = None" for b x
    using that by (simp add: updateState_def)
  have "self (ionChange g gv w) = self w"
    using assms by (simp add: ionChange_def Let_def u)
  moreover have "self (toggleExpanded w) = self w"
    by (simp add: toggleExpanded_def requestAccordionToggle_def Let_def split: option.splits)
  ultimately show ?thesis
    using u [OF assms] run_without_value [OF assms, of es] by simp
qed

theorem item_without_value_is_inert_witness:
  "value_prop (self (page 1 None (Single ''panel-2''))) = None \<and>
   list_all group_driven
     [Connect, Render 1 2, GroupChange 0 (Multiple [''panel-1'']), Click, GroupChange 0 NoValue] \<and>
   state (self (run
     [Connect, Render 1 2, GroupChange 0 (Multiple [''panel-1'']), Click, GroupChange 0 NoValue]
     (page 1 None (Single ''panel-2'')))) = Collapsed \<and>
   \<not> isNext (self (run
     [Connect, Render 1 2, GroupChange 0 (Multiple [''panel-1'']), Click, GroupChange 0 NoValue]
     (page 1 None (Single ''panel-2'')))) \<and>
   \<not> isPrevious (self (run
     [Connect, Render 1 2, GroupChange 0 (Multiple [''panel-1'']), Click, GroupChange 0 NoValue]
     (page 1 None (Single ''panel-2'')))) \<and>
   frames (run
     [Connect, Render 1 2, GroupChange 0 (Multiple [''panel-1'']), Click, GroupChange 0 NoValue]
     (page 1 None (Single ''panel-2''))) = []"
proof -
  have h: "value_prop (self (page 1 None (Single ''panel-2''))) = None"
    by (simp add: page_def new_accordion_def)
  have l: "list_all group_driven
     [Connect, Render 1 2, GroupChange 0 (Multiple [''panel-1'']), Click, GroupChange 0 NoValue]"
    by simp
  show ?thesis
    using item_without_value_is_inert [OF h,
        of _ _ _ "[Connect, Render 1 2, GroupChange 0 (Multiple [''panel-1'']), Click,
                   GroupChange 0 NoValue]"] l
    by (simp add: page_def new_accordion_def)
qed

subsection \<open>One transition, step by step\<close>

lemma expandAccordion_scheduled:
  assumes "state (self w) \<noteq> Expanded" and "contentEl (self w) = Some c"
    and "contentElWrapper (self w) = Some cw"
  shows "frames (expandAccordion False w) =
           (case currentRaf (self w) of
              None \<Rightarrow> frames w
            | Some r \<Rightarrow> filter (\<lambda>f. fst f \<noteq> r) (frames w)) @
           [(next_handle w, ExpandFrame c cw)]"
    and "trace (expandAccordion False w) =
           trace w @ [StateAssigned Expanding] @
           (case currentRaf (self w) of None \<Rightarrow> [] | Some r \<Rightarrow> [CancelAnimationFrame r]) @
           [Raf (next_handle w)]"
    and "state (self (expandAccordion False w)) = Expanding"
    and "currentRaf (self (expandAccordion False w)) = Some (next_handle w)"
    and "waits (expandAccordion False w) = waits w"
    and "divs (expandAccordion False w) = divs w"
    and "now (expandAccordion False w) = now w"
  using assms
  by (simp_all add: expandAccordion_def prim_defs Let_def split: option.splits)

lemma collapseAccordion_scheduled:
  assumes "state (self w) \<noteq> Collapsed" and "contentEl (self w) = Some c"
  shows "frames (collapseAccordion False w) =
           (case currentRaf (self w) of
              None \<Rightarrow> frames w
            | Some r \<Rightarrow> filter (\<lambda>f. fst f \<noteq> r) (frames w)) @
           [(next_handle w, CollapseFrame c)]"
    and "trace (collapseAccordion False w) =
           trace w @
           (case currentRaf (self w) of None \<Rightarrow> [] | Some r \<Rightarrow> [CancelAnimationFrame r]) @
           [Raf (next_handle w)]"
    and "state (self (collapseAccordion False w)) = state (self w)"
    and "currentRaf (self (collapseAccordion False w)) = Some (next_handle w)"
    and "waits (collapseAccordion False w) = waits w"
    and "divs (collapseAccordion False w) = divs w"
    and "now (collapseAccordion False w) = now w"
  using assms
  by (simp_all add: collapseAccordion_def prim_defs Let_def split: option.splits)

lemma animation_frame_last:
  assumes "frames w = fs @ [(h, cb)]" and "h \<notin> fst ` set fs"
  shows "animation_frame h w = run_callback cb (w\<lparr>frames := fs\<rparr>)"
proof -
  have m: "map_of fs h = None" using assms(2) by (simp add: map_of_eq_None_iff)
  have f: "filter (\<lambda>f. fst f \<noteq> h) fs = fs"
    using assms(2) by (induction fs) auto
  show ?thesis
    by (simp add: animation_frame_def assms(1) map_add_def m f)
qed

lemma run_callback_expand:
  "trace (run_callback (ExpandFrame c cw) w) =
     trace w @ [OffsetHeightRead cw, TransitionEndAsync c 50000,
                SetMaxHeight c (offsetHeight (divs w cw)), LayoutFlush c]"
  "waits (run_callback (ExpandFrame c cw) w) =
     waits w @ [\<lparr>wait_el = c, deadline = now w + 50000, resume = ExpandDone c\<rparr>]"
  "self (run_callback (ExpandFrame c cw) w) = self w"
  "max_height (divs (run_callback (ExpandFrame c cw) w) c) = Some (offsetHeight (divs w cw))"
  "frames (run_callback (ExpandFrame c cw) w) = frames w"
  "now (run_callback (ExpandFrame c cw) w) = now w"
  by (simp_all add: prim_defs)

lemma run_callback_collapse:
  "trace (run_callback (CollapseFrame c) w) =
     trace w @ [OffsetHeightRead c, SetMaxHeight c (offsetHeight (divs w c)), LayoutFlush c,
                TransitionEndAsync c 50000, StateAssigned Collapsing]"
  "waits (run_callback (CollapseFrame c) w) =
     waits w @ [\<lparr>wait_el = c, deadline = now w + 50000, resume = CollapseDone c\<rparr>]"
  "self (run_callback (CollapseFrame c) w) = (self w)\<lparr>state := Collapsing\<rparr>"
  "max_height (divs (run_callback (CollapseFrame c) w) c) = Some (offsetHeight (divs w c))"
  "frames (run_callback (CollapseFrame c) w) = frames w"
  "now (run_callback (CollapseFrame c) w) = now w"
  by (simp_all add: prim_defs)

lemma run_continuation_fields:
  "trace (run_continuation (ExpandDone c) w) = trace w @ [StateAssigned Expanded, RemoveMaxHeight c]"
  "trace (run_continuation (CollapseDone c) w) = trace w @ [StateAssigned Collapsed, RemoveMaxHeight c]"
  "state (self (run_continuation (ExpandDone c) w)) = Expanded"
  "state (self (run_continuation (CollapseDone c) w)) = Collapsed"
  "max_height (divs (run_continuation (ExpandDone c) w) c) = None"
  "max_height (divs (run_continuation (CollapseDone c) w) c) = None"
  by (simp_all add: prim_defs)

lemma resolve_waits_last:
  assumes "waits w = xs @ [x]" and "P x"
  shows "resolve_waits P w =
           run_continuation (resume x)
             (fold (\<lambda>y. run_continuation (resume y)) (filter P xs)
                (w\<lparr>waits := filter (\<lambda>y. \<not> P y) xs\<rparr>))"
  using assms by (simp add: resolve_waits_def)

lemma resolve_waits_none:
  assumes "filter P (waits w) = []"
  shows "resolve_waits P w = w"
proof -
  have "filter (\<lambda>y. \<not> P y) (waits w) = waits w"
    using assms by (induction "waits w") (auto simp add: filter_empty_conv)
  then show ?thesis by (simp add: resolve_waits_def assms)
qed

lemma expand_frame_fired:
  assumes "state (self w) \<noteq> Expanded" and "contentEl (self w) = Some c"
    and "contentElWrapper (self w) = Some cw" and "next_handle w \<notin> fst ` set (frames w)"
  shows "trace (animation_frame (next_handle w) (expandAccordion False w)) =
           trace (expandAccordion False w) @
             [OffsetHeightRead cw, TransitionEndAsync c 50000,
              SetMaxHeight c (offsetHeight (divs w cw)), LayoutFlush c]"
    and "waits (animation_frame (next_handle w) (expandAccordion False w)) =
           waits w @ [\<lparr>wait_el = c, deadline = now w + 50000, resume = ExpandDone c\<rparr>]"
    and "state (self (animation_frame (next_handle w) (expandAccordion False w))) = Expanding"
    and "max_height (divs (animation_frame (next_handle w) (expandAccordion False w)) c) =
           Some (offsetHeight (divs w cw))"
    and "now (animation_frame (next_handle w) (expandAccordion False w)) = now w"
proof -
  let ?w1 = "expandAccordion False w"
  let ?fs = "case currentRaf (self w) of
               None \<Rightarrow> frames w
             | Some r \<Rightarrow> filter (\<lambda>f. fst f \<noteq> r) (frames w)"
  note s = expandAccordion_scheduled [OF assms(1-3)]
  have fresh: "next_handle w \<notin> fst ` set ?fs"
    using assms(4) by (auto split: option.splits)
  have a: "animation_frame (next_handle w) ?w1 =
             run_callback (ExpandFrame c cw) (?w1\<lparr>frames := ?fs\<rparr>)"
    by (rule animation_frame_last [OF s(1) fresh])
  show "trace (animation_frame (next_handle w) ?w1) =
           trace ?w1 @ [OffsetHeightRead cw, TransitionEndAsync c 50000,
              SetMaxHeight c (offsetHeight (divs w cw)), LayoutFlush c]"
    unfolding a by (simp add: run_callback_expand s del: run_callback.simps)
  show "waits (animation_frame (next_handle w) ?w1) =
           waits w @ [\<lparr>wait_el = c, deadline = now w + 50000, resume = ExpandDone c\<rparr>]"
    unfolding a by (simp add: run_callback_expand s del: run_callback.simps)
  show "state (self (animation_frame (next_handle w) ?w1)) = Expanding"
    unfolding a by (simp add: run_callback_expand s del: run_callback.simps)
  show "max_height (divs (animation_frame (next_handle w) ?w1) c) =
           Some (offsetHeight (divs w cw))"
    unfolding a by (simp add: run_callback_expand s del: run_callback.simps)
  show "now (animation_frame (next_handle w) ?w1) = now w"
    unfolding a by (simp add: run_callback_expand s del: run_callback.simps)
qed

lemma collapse_frame_fired:
  assumes "state (self w) \<noteq> Collapsed" and "contentEl (self w) = Some c"
    and "next_handle w \<notin> fst ` set (frames w)"
  shows "trace (animation_frame (next_handle w) (collapseAccordion False w)) =
           trace (collapseAccordion False w) @
             [OffsetHeightRead c, SetMaxHeight c (offsetHeight (divs w c)), LayoutFlush c,
              TransitionEndAsync c 50000, StateAssigned Collapsing]"
    and "waits (animation_frame (next_handle w) (collapseAccordion False w)) =
           waits w @ [\<lparr>wait_el = c, deadline = now w + 50000, resume = CollapseDone c\<rparr>]"
    and "state (self (animation_frame (next_handle w) (collapseAccordion False w))) = Collapsing"
    and "max_height (divs (animation_frame (next_handle w) (collapseAccordion False w)) c) =
           Some (offsetHeight (divs w c))"
    and "now (animation_frame (next_handle w) (collapseAccordion False w)) = now w"
proof -
  let ?w1 = "collapseAccordion False w"
  let ?fs = "case currentRaf (self w) of
               None \<Rightarrow> frames w
             | Some r \<Rightarrow> filter (\<lambda>f. fst f \<noteq> r) (frames w)"
  note s = collapseAccordion_scheduled [OF assms(1-2)]
  have fresh: "next_handle w \<notin> fst ` set ?fs"
    using assms(3) by (auto split: option.splits)
  have a: "animation_frame (next_handle w) ?w1 =
             run_callback (CollapseFrame c) (?w1\<lparr>frames := ?fs\<rparr>)"
    by (rule animation_frame_last [OF s(1) fresh])
  show "trace (animation_frame (next_handle w) ?w1) =
           trace ?w1 @ [OffsetHeightRead c, SetMaxHeight c (offsetHeight (divs w c)),
              LayoutFlush c, TransitionEndAsync c 50000, StateAssigned Collapsing]"
    unfolding a by (simp add: run_callback_collapse s del: run_callback.simps)
  show "waits (animation_frame (next_handle w) ?w1) =
           waits w @ [\<lparr>wait_el = c, deadline = now w + 50000, resume = CollapseDone c\<rparr>]"
    unfolding a by (simp add: run_callback_collapse s del: run_callback.simps)
  show "state (self (animation_frame (next_handle w) ?w1)) = Collapsing"
    unfolding a by (simp add: run_callback_collapse s del: run_callback.simps)
  show "max_height (divs (animation_frame (next_handle w) ?w1) c) =
           Some (offsetHeight (divs w c))"
    unfolding a by (simp add: run_callback_collapse s del: run_callback.simps)
  show "now (animation_frame (next_handle w) ?w1) = now w"
    unfolding a by (simp add: run_callback_collapse s del: run_callback.simps)
qed

lemma newest_wait_resolved:
  assumes "waits w = xs @ [x]" and "P x"
  shows "resume x = ExpandDone c \<Longrightarrow>
           state (self (resolve_waits P w)) = Expanded \<and>
           max_height (divs (resolve_waits P w) c) = None"
    and "resume x = CollapseDone c \<Longrightarrow>
           state (self (resolve_waits P w)) = Collapsed \<and>
           max_height (divs (resolve_waits P w) c) = None"
    and "xs = [] \<Longrightarrow>
           trace (resolve_waits P w) = trace w @ trace (run_continuation (resume x) (w\<lparr>trace := []\<rparr>))"
proof -
  note r = resolve_waits_last [of w xs x P, OF assms]
  show "resume x = ExpandDone c \<Longrightarrow>
           state (self (resolve_waits P w)) = Expanded \<and>
           max_height (divs (resolve_waits P w) c) = None"
    unfolding r by (simp add: run_continuation_fields del: run_continuation.simps)
  show "resume x = CollapseDone c \<Longrightarrow>
           state (self (resolve_waits P w)) = Collapsed \<and>
           max_height (divs (resolve_waits P w) c) = None"
    unfolding r by (simp add: run_continuation_fields del: run_continuation.simps)
  show "xs = [] \<Longrightarrow>
           trace (resolve_waits P w) = trace w @ trace (run_continuation (resume x) (w\<lparr>trace := []\<rparr>))"
    unfolding r by (cases "resume x") (simp_all add: prim_defs)
qed

lemma run_continuation_waits_update:
  "run_continuation k (w\<lparr>waits := a\<rparr>) = (run_continuation k w)\<lparr>waits := a\<rparr>"
  by (cases k) (simp_all add: prim_defs)

lemma fold_continuations_waits_update:
  "fold (\<lambda>y. run_continuation (resume y)) ys (w\<lparr>waits := a\<rparr>) =
     (fold (\<lambda>y. run_continuation (resume y)) ys w)\<lparr>waits := a\<rparr>"
  by (induction ys arbitrary: w)
    (simp_all add: run_continuation_waits_update del: run_continuation.simps)

lemma resolve_waits_newest:
  assumes "waits w = xs @ [x]"
  shows "P x \<Longrightarrow>
           resolve_waits P w = run_continuation (resume x) (resolve_waits P (w\<lparr>waits := xs\<rparr>))"
    and "\<not> P x \<Longrightarrow>
           resolve_waits P w =
             (resolve_waits P (w\<lparr>waits := xs\<rparr>))
               \<lparr>waits := waits (resolve_waits P (w\<lparr>waits := xs\<rparr>)) @ [x]\<rparr>"
  using assms
  by (simp_all add: resolve_waits_def fold_continuations_waits_update
      del: run_continuation.simps)

lemma elapse_newest:
  assumes "waits w = xs @ [x]"
  shows "deadline x \<le> now w + d \<Longrightarrow>
           elapse d w = run_continuation (resume x) (elapse d (w\<lparr>waits := xs\<rparr>))"
    and "now w + d < deadline x \<Longrightarrow>
           elapse d w =
             (elapse d (w\<lparr>waits := xs\<rparr>))\<lparr>waits := waits (elapse d (w\<lparr>waits := xs\<rparr>)) @ [x]\<rparr>"
proof -
  let ?l = "w\<lparr>now := now w + d\<rparr>"
  have l: "waits ?l = xs @ [x]" using assms by simp
  have e: "elapse d (w\<lparr>waits := xs\<rparr>) =
             resolve_waits (\<lambda>y. deadline y \<le> now w + d) (?l\<lparr>waits := xs\<rparr>)"
    by (cases w) (simp add: elapse_def)
  show "deadline x \<le> now w + d \<Longrightarrow>
           elapse d w = run_continuation (resume x) (elapse d (w\<lparr>waits := xs\<rparr>))"
    unfolding e unfolding elapse_def by (rule resolve_waits_newest(1) [OF l])
  show "now w + d < deadline x \<Longrightarrow>
           elapse d w =
             (elapse d (w\<lparr>waits := xs\<rparr>))\<lparr>waits := waits (elapse d (w\<lparr>waits := xs\<rparr>)) @ [x]\<rparr>"
    unfolding e unfolding elapse_def by (rule resolve_waits_newest(2) [OF l]) simp
qed

lemma transitionend_newest:
  assumes "waits w = xs @ [x]"
  shows "wait_el x = e \<Longrightarrow>
           transitionend e w = run_continuation (resume x) (transitionend e (w\<lparr>waits := xs\<rparr>))"
    and "wait_el x \<noteq> e \<Longrightarrow>
           transitionend e w =
             (transitionend e (w\<lparr>waits := xs\<rparr>))
               \<lparr>waits := waits (transitionend e (w\<lparr>waits := xs\<rparr>)) @ [x]\<rparr>"
  unfolding transitionend_def
  by (rule resolve_waits_newest [OF assms]; simp)+

lemma elapse_nothing_due:
  assumes "list_all (\<lambda>y. now w + d < deadline y) (waits w)"
  shows "elapse d w = w\<lparr>now := now w + d\<rparr>"
  unfolding elapse_def
  by (rule resolve_waits_none) (use assms in \<open>simp add: list_all_iff filter_empty_conv not_le\<close>)

lemma run_continuation_expand_done:
  "trace (run_continuation (ExpandDone c) w) = trace w @ [StateAssigned Expanded, RemoveMaxHeight c] \<and>
   state (self (run_continuation (ExpandDone c) w)) = Expanded \<and>
   max_height (divs (run_continuation (ExpandDone c) w) c) = None \<and>
   waits (run_continuation (ExpandDone c) w) = waits w"
  by (simp add: prim_defs)

lemma run_continuation_collapse_done:
  "trace (run_continuation (CollapseDone c) w) =
     trace w @ [StateAssigned Collapsed, RemoveMaxHeight c] \<and>
   state (self (run_continuation (CollapseDone c) w)) = Collapsed \<and>
   max_height (divs (run_continuation (CollapseDone c) w) c) = None \<and>
   waits (run_continuation (CollapseDone c) w) = waits w"
  by (simp add: prim_defs)

lemma expand_protocol:
  assumes "state (self w) \<noteq> Expanded" and "contentEl (self w) = Some c"
    and "contentElWrapper (self w) = Some cw" and "next_handle w \<notin> fst ` set (frames w)"
  shows "let w1 = expandAccordion False w;
             w2 = animation_frame (next_handle w) w1;
             x = \<lparr>wait_el = c, deadline = now w + 50000, resume = ExpandDone c\<rparr>;
             older = w2\<lparr>waits := waits w\<rparr>
         in trace w1 =
              trace w @ [StateAssigned Expanding] @
              (case currentRaf (self w) of None \<Rightarrow> [] | Some r \<Rightarrow> [CancelAnimationFrame r]) @
              [Raf (next_handle w)] \<and>
            state (self w1) = Expanding \<and>
            divs w1 = divs w \<and>
            trace w2 =
              trace w1 @ [OffsetHeightRead cw, TransitionEndAsync c 50000,
                          SetMaxHeight c (offsetHeight (divs w cw)), LayoutFlush c] \<and>
            state (self w2) = Expanding \<and>
            max_height (divs w2 c) = Some (offsetHeight (divs w cw)) \<and>
            waits w2 = waits w @ [x] \<and>
            (\<forall>d<50000. elapse d w2 =
                          (elapse d older)\<lparr>waits := waits (elapse d older) @ [x]\<rparr>) \<and>
            (\<forall>d<50000. list_all (\<lambda>y. now w + d < deadline y) (waits w) \<longrightarrow>
                          trace (elapse d w2) = trace w2 \<and>
                          state (self (elapse d w2)) = Expanding \<and>
                          max_height (divs (elapse d w2) c) = Some (offsetHeight (divs w cw))) \<and>
            (\<forall>d\<ge>50000. trace (elapse d w2) =
                            trace (elapse d older) @ [StateAssigned Expanded, RemoveMaxHeight c] \<and>
                          state (self (elapse d w2)) = Expanded \<and>
                          max_height (divs (elapse d w2) c) = None \<and>
                          waits (elapse d w2) = waits (elapse d older)) \<and>
            trace (transitionend c w2) =
              trace (transitionend c older) @ [StateAssigned Expanded, RemoveMaxHeight c] \<and>
            state (self (transitionend c w2)) = Expanded \<and>
            max_height (divs (transitionend c w2) c) = None \<and>
            waits (transitionend c w2) = waits (transitionend c older)"
proof -
  let ?w1 = "expandAccordion False w"
  let ?w2 = "animation_frame (next_handle w) ?w1"
  let ?x = "\<lparr>wait_el = c, deadline = now w + 50000, resume = ExpandDone c\<rparr>"
  let ?o = "?w2\<lparr>waits := waits w\<rparr>"
  note s = expandAccordion_scheduled [OF assms(1-3)]
  note f = expand_frame_fired [OF assms]
  have early: "elapse d ?w2 = (elapse d ?o)\<lparr>waits := waits (elapse d ?o) @ [?x]\<rparr>"
    if "d < 50000" for d
    by (rule elapse_newest(2) [OF f(2)]) (use that f(5) in simp)
  have quiet: "trace (elapse d ?w2) = trace ?w2 \<and> state (self (elapse d ?w2)) = Expanding \<and>
      max_height (divs (elapse d ?w2) c) = Some (offsetHeight (divs w cw))"
    if "d < 50000" and "list_all (\<lambda>y. now w + d < deadline y) (waits w)" for d
  proof -
    have "list_all (\<lambda>y. now ?w2 + d < deadline y) (waits ?w2)"
      using that by (simp add: f(2,5))
    from elapse_nothing_due [OF this] show ?thesis by (simp add: f)
  qed
  have timeout: "trace (elapse d ?w2) =
        trace (elapse d ?o) @ [StateAssigned Expanded, RemoveMaxHeight c] \<and>
      state (self (elapse d ?w2)) = Expanded \<and>
      max_height (divs (elapse d ?w2) c) = None \<and>
      waits (elapse d ?w2) = waits (elapse d ?o)"
    if "50000 \<le> d" for d
  proof -
    have "elapse d ?w2 = run_continuation (resume ?x) (elapse d ?o)"
      by (rule elapse_newest(1) [OF f(2)]) (use that f(5) in simp)
    then show ?thesis
      by (simp add: run_continuation_expand_done del: run_continuation.simps)
  qed
  have "transitionend c ?w2 = run_continuation (resume ?x) (transitionend c ?o)"
    by (rule transitionend_newest(1) [OF f(2)]) simp
  then have signal: "trace (transitionend c ?w2) =
        trace (transitionend c ?o) @ [StateAssigned Expanded, RemoveMaxHeight c] \<and>
      state (self (transitionend c ?w2)) = Expanded \<and>
      max_height (divs (transitionend c ?w2) c) = None \<and>
      waits (transitionend c ?w2) = waits (transitionend c ?o)"
    by (simp add: run_continuation_expand_done del: run_continuation.simps)
  show ?thesis
    unfolding Let_def using s(2,3,6) f(1-4) early quiet timeout signal by blast
qed

lemma collapse_protocol:
  assumes "state (self w) \<noteq> Collapsed" and "contentEl (self w) = Some c"
    and "next_handle w \<notin> fst ` set (frames w)"
  shows "let w1 = collapseAccordion False w;
             w2 = animation_frame (next_handle w) w1;
             x = \<lparr>wait_el = c, deadline = now w + 50000, resume = CollapseDone c\<rparr>;
             older = w2\<lparr>waits := waits w\<rparr>
         in trace w1 =
              trace w @
              (case currentRaf (self w) of None \<Rightarrow> [] | Some r \<Rightarrow> [CancelAnimationFrame r]) @
              [Raf (next_handle w)] \<and>
            state (self w1) = state (self w) \<and>
            divs w1 = divs w \<and>
            trace w2 =
              trace w1 @ [OffsetHeightRead c, SetMaxHeight c (offsetHeight (divs w c)),
                          LayoutFlush c, TransitionEndAsync c 50000, StateAssigned Collapsing] \<and>
            state (self w2) = Collapsing \<and>
            max_height (divs w2 c) = Some (offsetHeight (divs w c)) \<and>
            waits w2 = waits w @ [x] \<and>
            (\<forall>d<50000. elapse d w2 =
                          (elapse d older)\<lparr>waits := waits (elapse d older) @ [x]\<rparr>) \<and>
            (\<forall>d<50000. list_all (\<lambda>y. now w + d < deadline y) (waits w) \<longrightarrow>
                          trace (elapse d w2) = trace w2 \<and>
                          state (self (elapse d w2)) = Collapsing \<and>
                          max_height (divs (elapse d w2) c) = Some (offsetHeight (divs w c))) \<and>
            (\<forall>d\<ge>50000. trace (elapse d w2) =
                            trace (elapse d older) @ [StateAssigned Collapsed, RemoveMaxHeight c] \<and>
                          state (self (elapse d w2)) = Collapsed \<and>
                          max_height (divs (elapse d w2) c) = None \<and>
                          waits (elapse d w2) = waits (elapse d older)) \<and>
            trace (transitionend c w2) =
              trace (transitionend c older) @ [StateAssigned Collapsed, RemoveMaxHeight c] \<and>
            state (self (transitionend c w2)) = Collapsed \<and>
            max_height (divs (transitionend c w2) c) = None \<and>
            waits (transitionend c w2) = waits (transitionend c older)"
proof -
  let ?w1 = "collapseAccordion False w"
  let ?w2 = "animation_frame (next_handle w) ?w1"
  let ?x = "\<lparr>wait_el = c, deadline = now w + 50000, resume = CollapseDone c\<rparr>"
  let ?o = "?w2\<lparr>waits := waits w\<rparr>"
  note s = collapseAccordion_scheduled [OF assms(1-2)]
  note f = collapse_frame_fired [OF assms]
  have early: "elapse d ?w2 = (elapse d ?o)\<lparr>waits := waits (elapse d ?o) @ [?x]\<rparr>"
    if "d < 50000" for d
    by (rule elapse_newest(2) [OF f(2)]) (use that f(5) in simp)
  have quiet: "trace (elapse d ?w2) = trace ?w2 \<and> state (self (elapse d ?w2)) = Collapsing \<and>
      max_height (divs (elapse d ?w2) c) = Some (offsetHeight (divs w c))"
    if "d < 50000" and "list_all (\<lambda>y. now w + d < deadline y) (waits w)" for d
  proof -
    have "list_all (\<lambda>y. now ?w2 + d < deadline y) (waits ?w2)"
      using that by (simp add: f(2,5))
    from elapse_nothing_due [OF this] show ?thesis by (simp add: f)
  qed
  have timeout: "trace (elapse d ?w2) =
        trace (elapse d ?o) @ [StateAssigned Collapsed, RemoveMaxHeight c] \<and>
      state (self (elapse d ?w2)) = Collapsed \<and>
      max_height (divs (elapse d ?w2) c) = None \<and>
      waits (elapse d ?w2) = waits (elapse d ?o)"
    if "50000 \<le> d" for d
  proof -
    have "elapse d ?w2 = run_continuation (resume ?x) (elapse d ?o)"
      by (rule elapse_newest(1) [OF f(2)]) (use that f(5) in simp)
    then show ?thesis
      by (simp add: run_continuation_collapse_done del: run_continuation.simps)
  qed
  have "transitionend c ?w2 = run_continuation (resume ?x) (transitionend c ?o)"
    by (rule transitionend_newest(1) [OF f(2)]) simp
  then have signal: "trace (transitionend c ?w2) =
        trace (transitionend c ?o) @ [StateAssigned Collapsed, RemoveMaxHeight c] \<and>
      state (self (transitionend c ?w2)) = Collapsed \<and>
      max_height (divs (transitionend c ?w2) c) = None \<and>
      waits (transitionend c ?w2) = waits (transitionend c ?o)"
    by (simp add: run_continuation_collapse_done del: run_continuation.simps)
  show ?thesis
    unfolding Let_def using s(2,3,6) f(1-4) early quiet timeout signal by blast
qed

text \<open>
  Claim C4. Take an item whose next frame handle is fresh. If it is not Expanded and has
  its content element and wrapper, an expand assigns Expanding, cancels the old handle if
  there is one and requests a frame, and leaves the styles alone. In the frame the
  wrapper's height is read first, then the wait with its 50000 ms timeout begins, then
  \<open>max-height\<close> is set to the height read, then the layout is flushed; after the frame
  the state is still Expanding, the constraint is in place, and the new wait is the
  newest one pending. Before the timeout the new wait stays pending and the world moves
  exactly as it would without that wait; if no older wait is due either, nothing happens:
  the state stays Expanding and the constraint stays. Once the timeout has passed, or
  when the completion signal comes on the content element, the older waits resolved with
  it run first and then, last, Expanded is assigned and the constraint removed: the item
  is Expanded and the content has no \<open>max-height\<close>. If the item is not Collapsed and
  has its content element, a collapse requests its frame and leaves the state as it is;
  in the frame the content's height is read, set as \<open>max-height\<close> and the layout
  flushed, and only then the wait begins and Collapsing is assigned; the rest is as for
  the expand, with Collapsed.
\<close>

theorem transition_protocol_order:
  assumes "next_handle w \<notin> fst ` set (frames w)"
  shows "(state (self w) \<noteq> Expanded \<and> contentEl (self w) = Some c \<and>
          contentElWrapper (self w) = Some cw \<longrightarrow>
           (let w1 = expandAccordion False w;
                w2 = animation_frame (next_handle w) w1;
                x = \<lparr>wait_el = c, deadline = now w + 50000, resume = ExpandDone c\<rparr>;
                older = w2\<lparr>waits := waits w\<rparr>
            in trace w1 =
                 trace w @ [StateAssigned Expanding] @
                 (case currentRaf (self w) of None \<Rightarrow> [] | Some r \<Rightarrow> [CancelAnimationFrame r]) @
                 [Raf (next_handle w)] \<and>
               state (self w1) = Expanding \<and>
               divs w1 = divs w \<and>
               trace w2 =
                 trace w1 @ [OffsetHeightRead cw, TransitionEndAsync c 50000,
                             SetMaxHeight c (offsetHeight (divs w cw)), LayoutFlush c] \<and>
               state (self w2) = Expanding \<and>
               max_height (divs w2 c) = Some (offsetHeight (divs w cw)) \<and>
               waits w2 = waits w @ [x] \<and>
               (d < 50000 \<longrightarrow>
                  elapse d w2 = (elapse d older)\<lparr>waits := waits (elapse d older) @ [x]\<rparr>) \<and>
               (d < 50000 \<and> list_all (\<lambda>y. now w + d < deadline y) (waits w) \<longrightarrow>
                  trace (elapse d w2) = trace w2 \<and>
                  state (self (elapse d w2)) = Expanding \<and>
                  max_height (divs (elapse d w2) c) = Some (offsetHeight (divs w cw))) \<and>
               (50000 \<le> t \<longrightarrow>
                  trace (elapse t w2) =
                    trace (elapse t older) @ [StateAssigned Expanded, RemoveMaxHeight c] \<and>
                  state (self (elapse t w2)) = Expanded \<and>
                  max_height (divs (elapse t w2) c) = None \<and>
                  waits (elapse t w2) = waits (elapse t older)) \<and>
               trace (transitionend c w2) =
                 trace (transitionend c older) @ [StateAssigned Expanded, RemoveMaxHeight c] \<and>
               state (self (transitionend c w2)) = Expanded \<and>
               max_height (divs (transitionend c w2) c) = None \<and>
               waits (transitionend c w2) = waits (transitionend c older))) \<and>
         (state (self w) \<noteq> Collapsed \<and> contentEl (self w) = Some c \<longrightarrow>
           (let w1 = collapseAccordion False w;
                w2 = animation_frame (next_handle w) w1;
                x = \<lparr>wait_el = c, deadline = now w + 50000, resume = CollapseDone c\<rparr>;
                older = w2\<lparr>waits := waits w\<rparr>
            in trace w1 =
                 trace w @
                 (case currentRaf (self w) of None \<Rightarrow> [] | Some r \<Rightarrow> [CancelAnimationFrame r]) @
                 [Raf (next_handle w)] \<and>
               state (self w1) = state (self w) \<and>
               divs w1 = divs w \<and>
               trace w2 =
                 trace w1 @ [OffsetHeightRead c, SetMaxHeight c (offsetHeight (divs w c)),
                             LayoutFlush c, TransitionEndAsync c 50000, StateAssigned Collapsing] \<and>
               state (self w2) = Collapsing \<and>
               max_height (divs w2 c) = Some (offsetHeight (divs w c)) \<and>
               waits w2 = waits w @ [x] \<and>
               (d < 50000 \<longrightarrow>
                  elapse d w2 = (elapse d older)\<lparr>waits := waits (elapse d older) @ [x]\<rparr>) \<and>
               (d < 50000 \<and> list_all (\<lambda>y. now w + d < deadline y) (waits w) \<longrightarrow>
                  trace (elapse d w2) = trace w2 \<and>
                  state (self (elapse d w2)) = Collapsing \<and>
                  max_height (divs (elapse d w2) c) = Some (offsetHeight (divs w c))) \<and>
               (50000 \<le> t \<longrightarrow>
                  trace (elapse t w2) =
                    trace (elapse t older) @ [StateAssigned Collapsed, RemoveMaxHeight c] \<and>
                  state (self (elapse t w2)) = Collapsed \<and>
                  max_height (divs (elapse t w2) c) = None \<and>
                  waits (elapse t w2) = waits (elapse t older)) \<and>
               trace (transitionend c w2) =
                 trace (transitionend c older) @ [StateAssigned Collapsed, RemoveMaxHeight c] \<and>
               state (self (transitionend c w2)) = Collapsed \<and>
               max_height (divs (transitionend c w2) c) = None \<and>
               waits (transitionend c w2) = waits (transitionend c older)))"
  using expand_protocol [of w c cw] collapse_protocol [of w c] assms
  unfolding Let_def by blast

theorem transition_protocol_order_witness:
  "state (self (animation_frame 0
      (expandAccordion False (mounted 0 (Some ''panel-1'') NoValue)))) = Expanding \<and>
   max_height (divs (animation_frame 0
      (expandAccordion False (mounted 0 (Some ''panel-1'') NoValue))) 1) = Some 120 \<and>
   state (self (elapse 49999 (animation_frame 0
      (expandAccordion False (mounted 0 (Some ''panel-1'') NoValue))))) = Expanding \<and>
   max_height (divs (elapse 49999 (animation_frame 0
      (expandAccordion False (mounted 0 (Some ''panel-1'') NoValue)))) 1) = Some 120 \<and>
   trace (elapse 50000 (animation_frame 0
      (expandAccordion False (mounted 0 (Some ''panel-1'') NoValue)))) =
     [StateAssigned Collapsed, StateAssigned Expanding, Raf 0,
      OffsetHeightRead 2, TransitionEndAsync 1 50000, SetMaxHeight 1 120, LayoutFlush 1,
      StateAssigned Expanded, RemoveMaxHeight 1] \<and>
   state (self (elapse 50000 (animation_frame 0
      (expandAccordion False (mounted 0 (Some ''panel-1'') NoValue))))) = Expanded \<and>
   max_height (divs (elapse 50000 (animation_frame 0
      (expandAccordion False (mounted 0 (Some ''panel-1'') NoValue)))) 1) = None \<and>
   state (self (collapseAccordion False
      (mounted 0 (Some ''panel-1'') (Single ''panel-1'')))) = Expanded \<and>
   state (self (animation_frame 0 (collapseAccordion False
      (mounted 0 (Some ''panel-1'') (Single ''panel-1''))))) = Collapsing \<and>
   trace (elapse 50000 (animation_frame 0
      (collapseAccordion False (mounted 0 (Some ''panel-1'') (Single ''panel-1''))))) =
     [StateAssigned Expanded, Raf 0,
      OffsetHeightRead 1, SetMaxHeight 1 120, LayoutFlush 1, TransitionEndAsync 1 50000,
      StateAssigned Collapsing,
      StateAssigned Collapsed, RemoveMaxHeight 1] \<and>
   state (self (elapse 50000 (animation_frame 0
      (collapseAccordion False (mounted 0 (Some ''panel-1'') (Single ''panel-1'')))))) =
     Collapsed \<and>
   max_height (divs (elapse 50000 (animation_frame 0
      (collapseAccordion False (mounted 0 (Some ''panel-1'') (Single ''panel-1''))))) 1) =
     None \<and>
   state (self collapsing) = Collapsing \<and>
   length (waits collapsing) = 1 \<and>
   trace (elapse 50000 (animation_frame 1 (expandAccordion False collapsing))) =
     [StateAssigned Expanded, Raf 0,
      OffsetHeightRead 1, SetMaxHeight 1 120, LayoutFlush 1, TransitionEndAsync 1 50000,
      StateAssigned Collapsing,
      StateAssigned Expanding, CancelAnimationFrame 0, Raf 1,
      OffsetHeightRead 2, TransitionEndAsync 1 50000, SetMaxHeight 1 120, LayoutFlush 1,
      StateAssigned Collapsed, RemoveMaxHeight 1,
      StateAssigned Expanded, RemoveMaxHeight 1] \<and>
   state (self (elapse 50000 (animation_frame 1 (expandAccordion False collapsing)))) =
     Expanded \<and>
   max_height (divs (elapse 50000 (animation_frame 1 (expandAccordion False collapsing))) 1) =
     None"
proof -
  have m: "next_handle (mounted 0 v gv) \<notin> fst ` set (frames (mounted 0 v gv))" for v gv
    by (simp add: all_defs split: option.splits)
  have i: "next_handle collapsing \<notin> fst ` set (frames collapsing)"
    by (simp add: collapsing_def all_defs)
  have fe: "state (self (mounted 0 (Some ''panel-1'') NoValue)) = Collapsed"
    "trace (mounted 0 (Some ''panel-1'') NoValue) = [StateAssigned Collapsed]"
    and fc: "state (self (mounted 0 (Some ''panel-1'') (Single ''panel-1''))) = Expanded"
    "trace (mounted 0 (Some ''panel-1'') (Single ''panel-1'')) = [StateAssigned Expanded]"
    and fm: "contentEl (self (mounted 0 v gv)) = Some 1"
    "contentElWrapper (self (mounted 0 v gv)) = Some 2"
    "currentRaf (self (mounted 0 v gv)) = None"
    "next_handle (mounted 0 v gv) = 0"
    "waits (mounted 0 v gv) = []"
    "now (mounted 0 v gv) = 0"
    "offsetHeight (divs (mounted 0 v gv) a) = 120" for v gv a
    by (simp_all add: all_defs split: option.splits)
  have fr: "state (self collapsing) = Collapsing"
    "trace collapsing =
       [StateAssigned Expanded, Raf 0,
        OffsetHeightRead 1, SetMaxHeight 1 120, LayoutFlush 1, TransitionEndAsync 1 50000,
        StateAssigned Collapsing]"
    "contentEl (self collapsing) = Some 1"
    "contentElWrapper (self collapsing) = Some 2"
    "currentRaf (self collapsing) = Some 0"
    "next_handle collapsing = 1"
    "waits collapsing = [\<lparr>wait_el = 1, deadline = 50000, resume = CollapseDone 1\<rparr>]"
    "now collapsing = 0"
    "offsetHeight (divs collapsing a) = 120" for a
    by (simp_all add: collapsing_def all_defs)
  have e: "state (self (animation_frame 0
      (expandAccordion False (mounted 0 (Some ''panel-1'') NoValue)))) = Expanding \<and>
   max_height (divs (animation_frame 0
      (expandAccordion False (mounted 0 (Some ''panel-1'') NoValue))) 1) = Some 120 \<and>
   state (self (elapse 49999 (animation_frame 0
      (expandAccordion False (mounted 0 (Some ''panel-1'') NoValue))))) = Expanding \<and>
   max_height (divs (elapse 49999 (animation_frame 0
      (expandAccordion False (mounted 0 (Some ''panel-1'') NoValue)))) 1) = Some 120 \<and>
   trace (elapse 50000 (animation_frame 0
      (expandAccordion False (mounted 0 (Some ''panel-1'') NoValue)))) =
     [StateAssigned Collapsed, StateAssigned Expanding, Raf 0,
      OffsetHeightRead 2, TransitionEndAsync 1 50000, SetMaxHeight 1 120, LayoutFlush 1,
      StateAssigned Expanded, RemoveMaxHeight 1] \<and>
   state (self (elapse 50000 (animation_frame 0
      (expandAccordion False (mounted 0 (Some ''panel-1'') NoValue))))) = Expanded \<and>
   max_height (divs (elapse 50000 (animation_frame 0
      (expandAccordion False (mounted 0 (Some ''panel-1'') NoValue)))) 1) = None"
    using transition_protocol_order [OF m, of "Some ''panel-1''" NoValue 1 2 49999 50000]
    by (simp add: fe fm elapse_nothing_due Let_def)
  have c: "state (self (collapseAccordion False
      (mounted 0 (Some ''panel-1'') (Single ''panel-1'')))) = Expanded \<and>
   state (self (animation_frame 0 (collapseAccordion False
      (mounted 0 (Some ''panel-1'') (Single ''panel-1''))))) = Collapsing \<and>
   trace (elapse 50000 (animation_frame 0
      (collapseAccordion False (mounted 0 (Some ''panel-1'') (Single ''panel-1''))))) =
     [StateAssigned Expanded, Raf 0,
      OffsetHeightRead 1, SetMaxHeight 1 120, LayoutFlush 1, TransitionEndAsync 1 50000,
      StateAssigned Collapsing,
      StateAssigned Collapsed, RemoveMaxHeight 1] \<and>
   state (self (elapse 50000 (animation_frame 0
      (collapseAccordion False (mounted 0 (Some ''panel-1'') (Single ''panel-1'')))))) =
     Collapsed \<and>
   max_height (divs (elapse 50000 (animation_frame 0
      (collapseAccordion False (mounted 0 (Some ''panel-1'') (Single ''panel-1''))))) 1) =
     None"
    using transition_protocol_order [OF m, of "Some ''panel-1''" "Single ''panel-1''" 1 2 49999 50000]
    by (simp add: fc fm elapse_nothing_due Let_def)
  have r: "state (self collapsing) = Collapsing \<and>
   length (waits collapsing) = 1 \<and>
   trace (elapse 50000 (animation_frame 1 (expandAccordion False collapsing))) =
     [StateAssigned Expanded, Raf 0,
      OffsetHeightRead 1, SetMaxHeight 1 120, LayoutFlush 1, TransitionEndAsync 1 50000,
      StateAssigned Collapsing,
      StateAssigned Expanding, CancelAnimationFrame 0, Raf 1,
      OffsetHeightRead 2, TransitionEndAsync 1 50000, SetMaxHeight 1 120, LayoutFlush 1,
      StateAssigned Collapsed, RemoveMaxHeight 1,
      StateAssigned Expanded, RemoveMaxHeight 1] \<and>
   state (self (elapse 50000 (animation_frame 1 (expandAccordion False collapsing)))) =
     Expanded \<and>
   max_height (divs (elapse 50000 (animation_frame 1 (expandAccordion False collapsing))) 1) =
     None"
    using transition_protocol_order [OF i, of 1 2 49999 50000]
    by (simp add: fr elapse_def resolve_waits_def prim_defs Let_def)
  show ?thesis using e c r by blast
qed

subsection \<open>No item stays in a transient state\<close>

lemma run_callback_fields:
  "now (run_callback cb w) = now w"
  "frames (run_callback cb w) = frames w"
  "\<exists>x. waits (run_callback cb w) = waits w @ [x] \<and> deadline x = now w + 50000"
  by (cases cb; simp add: prim_defs)+

lemma fold_callbacks_fields:
  "now (fold (\<lambda>f. run_callback (snd f)) fs w) = now w \<and>
   frames (fold (\<lambda>f. run_callback (snd f)) fs w) = frames w \<and>
   (\<exists>xs. waits (fold (\<lambda>f. run_callback (snd f)) fs w) = waits w @ xs \<and>
         length xs = length fs \<and>
         list_all (\<lambda>x. deadline x = now w + 50000) xs)"
proof (induction fs arbitrary: w)
  case Nil
  show ?case by simp
next
  case (Cons f fs)
  let ?w = "run_callback (snd f) w"
  obtain x where x: "waits ?w = waits w @ [x]" "deadline x = now w + 50000"
    using run_callback_fields(3) [of "snd f" w] by blast
  obtain xs where xs: "waits (fold (\<lambda>f. run_callback (snd f)) fs ?w) = waits ?w @ xs"
    "length xs = length fs" "list_all (\<lambda>x. deadline x = now ?w + 50000) xs"
    using Cons.IH [of ?w] by blast
  have "waits (fold (\<lambda>f. run_callback (snd f)) (f # fs) w) = waits w @ (x # xs) \<and>
        length (x # xs) = length (f # fs) \<and>
        list_all (\<lambda>x. deadline x = now w + 50000) (x # xs)"
    using x xs by (simp add: run_callback_fields)
  then have "\<exists>ys. waits (fold (\<lambda>f. run_callback (snd f)) (f # fs) w) = waits w @ ys \<and>
        length ys = length (f # fs) \<and>
        list_all (\<lambda>x. deadline x = now w + 50000) ys"
    by blast
  then show ?case
    using Cons.IH [of ?w] by (simp add: run_callback_fields)
qed

lemma run_continuation_terminal:
  "state (self (run_continuation k w)) = Expanded \<or>
   state (self (run_continuation k w)) = Collapsed"
  by (cases k) (simp_all add: prim_defs)

lemma run_continuation_keeps:
  "frames (run_continuation k w) = frames w \<and>
   waits (run_continuation k w) = waits w \<and>
   now (run_continuation k w) = now w"
  by (cases k) (simp_all add: prim_defs)

lemma fold_continuations_keeps:
  "frames (fold (\<lambda>x. run_continuation (resume x)) xs w) = frames w \<and>
   waits (fold (\<lambda>x. run_continuation (resume x)) xs w) = waits w \<and>
   now (fold (\<lambda>x. run_continuation (resume x)) xs w) = now w"
  by (induction xs arbitrary: w) (simp_all add: run_continuation_keeps)

lemma fold_continuations_terminal:
  assumes "xs \<noteq> []"
  shows "state (self (fold (\<lambda>x. run_continuation (resume x)) xs w)) = Expanded \<or>
         state (self (fold (\<lambda>x. run_continuation (resume x)) xs w)) = Collapsed"
  using assms
proof (induction xs arbitrary: w)
  case Nil
  then show ?case by simp
next
  case (Cons x xs)
  show ?case
  proof (cases "xs = []")
    case True
    then show ?thesis by (simp add: run_continuation_terminal)
  next
    case False
    from Cons.IH [OF this] show ?thesis by simp
  qed
qed

lemma resolve_waits_backed:
  assumes "backed w"
  shows "backed (resolve_waits P w)"
proof (cases "filter P (waits w) = []")
  case True
  then show ?thesis using assms by (simp add: resolve_waits_none)
next
  case False
  let ?w = "w\<lparr>waits := filter (\<lambda>x. \<not> P x) (waits w)\<rparr>"
  have t: "state (self (resolve_waits P w)) = Expanded \<or>
           state (self (resolve_waits P w)) = Collapsed"
    unfolding resolve_waits_def by (rule fold_continuations_terminal [OF False])
  have k: "waits (resolve_waits P w) = filter (\<lambda>x. \<not> P x) (waits w)"
          "now (resolve_waits P w) = now w"
    by (simp_all add: resolve_waits_def fold_continuations_keeps)
  have "list_all (\<lambda>x. deadline x \<le> now w + 50000) (waits w)"
    using assms by (simp add: backed_def)
  then have "list_all (\<lambda>x. deadline x \<le> now w + 50000) (filter (\<lambda>x. \<not> P x) (waits w))"
    by (simp add: list_all_iff)
  then show ?thesis using t by (auto simp add: backed_def k)
qed

lemma later_backed:
  assumes "backed w"
  shows "backed (w\<lparr>now := now w + d\<rparr>)"
proof -
  have "list_all (\<lambda>x. deadline x \<le> now w + 50000) (waits w)"
    using assms by (simp add: backed_def)
  then have "list_all (\<lambda>x. deadline x \<le> now w + d + 50000) (waits w)"
    by (auto simp add: list_all_iff)
  then show ?thesis using assms by (simp add: backed_def)
qed

lemma run_frames_backed:
  assumes "backed w"
  shows "backed (run_frames w)"
proof -
  let ?w = "w\<lparr>frames := []\<rparr>"
  obtain xs where xs: "waits (run_frames w) = waits w @ xs" "length xs = length (frames w)"
    "list_all (\<lambda>x. deadline x = now w + 50000) xs"
    using fold_callbacks_fields [of "frames w" ?w] by (auto simp add: run_frames_def)
  have n: "now (run_frames w) = now w"
    using fold_callbacks_fields [of "frames w" ?w] by (simp add: run_frames_def)
  show ?thesis
  proof (cases "frames w")
    case Nil
    then have "run_frames w = w" by (simp add: run_frames_def)
    then show ?thesis using assms by simp
  next
    case (Cons f fs)
    then have w: "waits (run_frames w) \<noteq> []" using xs by auto
    have "list_all (\<lambda>x. deadline x \<le> now w + 50000) (waits w)"
      using assms by (simp add: backed_def)
    then have "list_all (\<lambda>x. deadline x \<le> now w + 50000) (waits (run_frames w))"
      using xs by (auto simp add: list_all_iff)
    then show ?thesis using w by (simp add: backed_def n)
  qed
qed

lemma expandAccordion_backed:
  assumes "backed w"
  shows "backed (expandAccordion i w)"
  using assms
  by (auto simp add: backed_def expandAccordion_def prim_defs Let_def split: option.splits)

lemma collapseAccordion_backed:
  assumes "backed w"
  shows "backed (collapseAccordion i w)"
  using assms
  by (auto simp add: backed_def collapseAccordion_def prim_defs Let_def split: option.splits)

lemma backed_cong:
  assumes "backed w" and "state (self w') = state (self w)" and "frames w' = frames w"
    and "waits w' = waits w" and "now w' = now w"
  shows "backed w'"
  using assms by (simp add: backed_def)

lemma updateState_backed:
  assumes "backed w"
  shows "backed (updateState i w)"
proof (cases "value_prop (self w)")
  case None
  then show ?thesis using assms by (simp add: updateState_def)
next
  case (Some v)
  show ?thesis
  proof (cases "accordionGroupEl (self w)")
    case None
    then show ?thesis using assms Some by (simp add: updateState_def)
  next
    case g: (Some g)
    show ?thesis
    proof (cases "includes_value (group_value (groups w g)) v")
      case True
      show ?thesis
        unfolding updateState_expand_branch [OF Some g True]
        by (rule backed_cong [OF expandAccordion_backed [OF assms, of i]]) simp_all
    next
      case False
      show ?thesis
        unfolding updateState_collapse_branch [OF Some g False]
        by (rule backed_cong [OF collapseAccordion_backed [OF assms, of i]]) simp_all
    qed
  qed
qed

lemma step_backed:
  assumes "backed w"
  shows "backed (step e w)"
proof (cases e)
  case Connect
  let ?f = "case el (self w) of None \<Rightarrow> None | Some i \<Rightarrow> closest_group w"
  let ?w1 = "w\<lparr>self := (self w)\<lparr>accordionGroupEl := ?f\<rparr>\<rparr>"
  have b1: "backed ?w1" by (rule backed_cong [OF assms]) simp_all
  show ?thesis
  proof (cases ?f)
    case None
    then show ?thesis using b1 by (simp add: Connect connectedCallback_def Let_def)
  next
    case (Some g)
    have "backed (set_listener g True (updateState True ?w1))"
      by (rule backed_cong [OF updateState_backed [OF b1, of True]])
        (simp_all add: set_listener_def)
    then show ?thesis using Some by (simp add: Connect connectedCallback_def Let_def)
  qed
next
  case Disconnect
  show ?thesis
    unfolding Disconnect
    by (rule backed_cong [OF assms])
      (simp_all add: disconnectedCallback_def set_listener_def split: option.splits)
next
  case (Render c cw)
  show ?thesis
    unfolding Render by (rule backed_cong [OF assms]) (simp_all add: render_refs_def)
next
  case Click
  show ?thesis
    unfolding Click
    by (rule backed_cong [OF assms])
      (simp_all add: toggleExpanded_def requestAccordionToggle_def Let_def split: option.splits)
next
  case (GroupChange g v)
  let ?w1 = "w\<lparr>groups := (groups w)(g := (groups w g)\<lparr>group_value := v\<rparr>)\<rparr>"
  have b1: "backed ?w1" by (rule backed_cong [OF assms]) simp_all
  from b1 updateState_backed [OF b1, of False] show ?thesis
    by (simp add: GroupChange ionChange_def Let_def)
next
  case Frame
  then show ?thesis using run_frames_backed [OF assms] by simp
next
  case (TransitionEnd e)
  then show ?thesis using resolve_waits_backed [OF assms] by (simp add: transitionend_def)
next
  case (Elapse d)
  then show ?thesis
    using resolve_waits_backed [OF later_backed [OF assms, of d]] by (simp add: elapse_def)
qed

lemma run_backed:
  assumes "backed w"
  shows "backed (run es w)"
  using assms
  by (induction es arbitrary: w) (simp_all add: run_def step_backed)

lemma backed_settles:
  assumes "backed w" and "50000 \<le> d"
  shows "state (self (elapse d (run_frames w))) = Expanded \<or>
         state (self (elapse d (run_frames w))) = Collapsed"
proof -
  let ?r = "run_frames w"
  let ?l = "?r\<lparr>now := now ?r + d\<rparr>"
  let ?P = "\<lambda>x. deadline x \<le> now ?r + d"
  have b: "backed ?r" by (rule run_frames_backed [OF assms(1)])
  have f: "frames ?r = []" by (simp add: run_frames_def fold_callbacks_fields)
  have "list_all (\<lambda>x. deadline x \<le> now ?r + 50000) (waits ?r)"
    using b by (simp add: backed_def)
  then have "list_all ?P (waits ?r)"
    using assms(2) by (auto simp add: list_all_iff)
  then have all: "filter ?P (waits ?l) = waits ?r"
    by (simp add: list_all_iff)
  show ?thesis
  proof (cases "waits ?r = []")
    case True
    then have "resolve_waits ?P ?l = ?l" by (simp add: resolve_waits_none)
    then have "state (self (elapse d ?r)) = state (self ?r)" by (simp add: elapse_def)
    then show ?thesis using b f True by (cases "state (self ?r)") (simp_all add: backed_def)
  next
    case False
    then have "filter ?P (waits ?l) \<noteq> []" using all by simp
    from fold_continuations_terminal [OF this] show ?thesis
      by (simp add: elapse_def resolve_waits_def)
  qed
qed

text \<open>
  Frame handles are handed out in increasing order, so the next handle is never that of
  a queued frame in a world reached from one where this holds, such as a new item's.
\<close>

lemma expandAccordion_handles:
  assumes "\<forall>f\<in>set (frames w). fst f < next_handle w"
  shows "\<forall>f\<in>set (frames (expandAccordion i w)). fst f < next_handle (expandAccordion i w)"
  using assms
  by (auto simp add: expandAccordion_def prim_defs Let_def less_Suc_eq split: option.splits)

lemma collapseAccordion_handles:
  assumes "\<forall>f\<in>set (frames w). fst f < next_handle w"
  shows "\<forall>f\<in>set (frames (collapseAccordion i w)). fst f < next_handle (collapseAccordion i w)"
  using assms
  by (auto simp add: collapseAccordion_def prim_defs Let_def less_Suc_eq split: option.splits)

lemma updateState_handles:
  assumes "\<forall>f\<in>set (frames w). fst f < next_handle w"
  shows "\<forall>f\<in>set (frames (updateState i w)). fst f < next_handle (updateState i w)"
proof (cases "value_prop (self w)")
  case None
  then show ?thesis using assms by (simp add: updateState_def)
next
  case (Some v)
  show ?thesis
  proof (cases "accordionGroupEl (self w)")
    case None
    then show ?thesis using assms Some by (simp add: updateState_def)
  next
    case g: (Some g)
    show ?thesis
    proof (cases "includes_value (group_value (groups w g)) v")
      case True
      show ?thesis
        unfolding updateState_expand_branch [OF Some g True]
        using expandAccordion_handles [OF assms, of i] by simp
    next
      case False
      show ?thesis
        unfolding updateState_collapse_branch [OF Some g False]
        using collapseAccordion_handles [OF assms, of i] by simp
    qed
  qed
qed

lemma fold_continuations_next_handle:
  "next_handle (fold (\<lambda>x. run_continuation (resume x)) xs w) = next_handle w"
proof (induction xs arbitrary: w)
  case Nil
  show ?case by simp
next
  case (Cons x xs)
  have "next_handle (run_continuation (resume x) w) = next_handle w"
    by (cases "resume x") (simp_all add: prim_defs)
  then show ?case by (simp add: Cons.IH del: run_continuation.simps)
qed

lemma step_handles:
  assumes "\<forall>f\<in>set (frames w). fst f < next_handle w"
  shows "\<forall>f\<in>set (frames (step e w)). fst f < next_handle (step e w)"
proof (cases e)
  case Connect
  let ?f = "case el (self w) of None \<Rightarrow> None | Some i \<Rightarrow> closest_group w"
  let ?w1 = "w\<lparr>self := (self w)\<lparr>accordionGroupEl := ?f\<rparr>\<rparr>"
  have "\<forall>f\<in>set (frames ?w1). fst f < next_handle ?w1" using assms by simp
  from updateState_handles [OF this, of True] assms show ?thesis
    by (cases ?f) (simp_all add: Connect connectedCallback_def Let_def set_listener_def)
next
  case Disconnect
  then show ?thesis
    using assms by (simp add: disconnectedCallback_def set_listener_def split: option.splits)
next
  case (Render c cw)
  then show ?thesis using assms by (simp add: render_refs_def)
next
  case Click
  then show ?thesis
    using assms
    by (simp add: toggleExpanded_def requestAccordionToggle_def Let_def split: option.splits)
next
  case (GroupChange g v)
  let ?w1 = "w\<lparr>groups := (groups w)(g := (groups w g)\<lparr>group_value := v\<rparr>)\<rparr>"
  have "\<forall>f\<in>set (frames ?w1). fst f < next_handle ?w1" using assms by simp
  from updateState_handles [OF this, of False] assms show ?thesis
    by (simp add: GroupChange ionChange_def Let_def)
next
  case Frame
  have "frames (run_frames w) = []" by (simp add: run_frames_def fold_callbacks_fields)
  then show ?thesis by (simp add: Frame)
next
  case (TransitionEnd e)
  then show ?thesis
    using assms
    by (simp add: transitionend_def resolve_waits_def fold_continuations_keeps
        fold_continuations_next_handle)
next
  case (Elapse d)
  then show ?thesis
    using assms
    by (simp add: elapse_def resolve_waits_def fold_continuations_keeps
        fold_continuations_next_handle)
qed

lemma run_handles:
  assumes "\<forall>f\<in>set (frames w). fst f < next_handle w"
  shows "next_handle (run es w) \<notin> fst ` set (frames (run es w))"
proof -
  have "\<forall>f\<in>set (frames (run es w)). fst f < next_handle (run es w)"
    using assms by (induction es arbitrary: w) (simp_all add: run_def step_handles)
  then show ?thesis by auto
qed

text \<open>
  Claim C6. Take an item that has its content elements and a fresh frame handle. The
  frame of an animated expand registers a wait whose deadline is 50000 ms after the
  frame; once that time has passed without a signal, or once the signal has come, the
  item is Expanded and the \<open>max-height\<close> constraint is gone. The same holds for a
  collapse, with Collapsed. And in general: if every transient state is backed by
  scheduled work and no wait is registered for longer than the timeout, then this stays
  so under every sequence of events, and the next frame followed by 50000 ms or more
  without any signal leaves the item Expanded or Collapsed.
\<close>

theorem transition_reaches_terminal_state:
  assumes "contentEl (self w) = Some c" and "contentElWrapper (self w) = Some cw"
    and "next_handle w \<notin> fst ` set (frames w)" and "50000 \<le> d"
  shows "(state (self w) \<noteq> Expanded \<longrightarrow>
           (let w2 = animation_frame (next_handle w) (expandAccordion False w)
            in waits w2 =
                 waits w @ [\<lparr>wait_el = c, deadline = now w + 50000, resume = ExpandDone c\<rparr>] \<and>
               now w2 = now w \<and>
               state (self w2) = Expanding \<and>
               state (self (elapse d w2)) = Expanded \<and>
               max_height (divs (elapse d w2) c) = None \<and>
               state (self (transitionend c w2)) = Expanded \<and>
               max_height (divs (transitionend c w2) c) = None)) \<and>
         (state (self w) \<noteq> Collapsed \<longrightarrow>
           (let w2 = animation_frame (next_handle w) (collapseAccordion False w)
            in waits w2 =
                 waits w @ [\<lparr>wait_el = c, deadline = now w + 50000, resume = CollapseDone c\<rparr>] \<and>
               now w2 = now w \<and>
               state (self w2) = Collapsing \<and>
               state (self (elapse d w2)) = Collapsed \<and>
               max_height (divs (elapse d w2) c) = None \<and>
               state (self (transitionend c w2)) = Collapsed \<and>
               max_height (divs (transitionend c w2) c) = None)) \<and>
         (backed w \<longrightarrow>
            backed (run es w) \<and>
            (state (self (elapse d (run_frames (run es w)))) = Expanded \<or>
             state (self (elapse d (run_frames (run es w)))) = Collapsed))"
proof -
  have ex: "let w2 = animation_frame (next_handle w) (expandAccordion False w)
            in waits w2 =
                 waits w @ [\<lparr>wait_el = c, deadline = now w + 50000, resume = ExpandDone c\<rparr>] \<and>
               now w2 = now w \<and>
               state (self w2) = Expanding \<and>
               state (self (elapse d w2)) = Expanded \<and>
               max_height (divs (elapse d w2) c) = None \<and>
               state (self (transitionend c w2)) = Expanded \<and>
               max_height (divs (transitionend c w2) c) = None"
    if n: "state (self w) \<noteq> Expanded"
  proof -
    let ?w2 = "animation_frame (next_handle w) (expandAccordion False w)"
    let ?x = "\<lparr>wait_el = c, deadline = now w + 50000, resume = ExpandDone c\<rparr>"
    note f = expand_frame_fired [OF n assms(1-3)]
    have l: "waits (?w2\<lparr>now := now ?w2 + d\<rparr>) = waits w @ [?x]" using f(2) by simp
    have t: "state (self (elapse d ?w2)) = Expanded \<and> max_height (divs (elapse d ?w2) c) = None"
      unfolding elapse_def
      by (rule newest_wait_resolved(1) [OF l]) (use assms(4) f(5) in simp_all)
    have s: "state (self (transitionend c ?w2)) = Expanded \<and>
             max_height (divs (transitionend c ?w2) c) = None"
      unfolding transitionend_def
      by (rule newest_wait_resolved(1) [OF f(2)]) simp_all
    show ?thesis unfolding Let_def using f(2,3,5) t s by blast
  qed
  have co: "let w2 = animation_frame (next_handle w) (collapseAccordion False w)
            in waits w2 =
                 waits w @ [\<lparr>wait_el = c, deadline = now w + 50000, resume = CollapseDone c\<rparr>] \<and>
               now w2 = now w \<and>
               state (self w2) = Collapsing \<and>
               state (self (elapse d w2)) = Collapsed \<and>
               max_height (divs (elapse d w2) c) = None \<and>
               state (self (transitionend c w2)) = Collapsed \<and>
               max_height (divs (transitionend c w2) c) = None"
    if n: "state (self w) \<noteq> Collapsed"
  proof -
    let ?w2 = "animation_frame (next_handle w) (collapseAccordion False w)"
    let ?x = "\<lparr>wait_el = c, deadline = now w + 50000, resume = CollapseDone c\<rparr>"
    note f = collapse_frame_fired [OF n assms(1,3)]
    have l: "waits (?w2\<lparr>now := now ?w2 + d\<rparr>) = waits w @ [?x]" using f(2) by simp
    have t: "state (self (elapse d ?w2)) = Collapsed \<and> max_height (divs (elapse d ?w2) c) = None"
      unfolding elapse_def
      by (rule newest_wait_resolved(2) [OF l]) (use assms(4) f(5) in simp_all)
    have s: "state (self (transitionend c ?w2)) = Collapsed \<and>
             max_height (divs (transitionend c ?w2) c) = None"
      unfolding transitionend_def
      by (rule newest_wait_resolved(2) [OF f(2)]) simp_all
    show ?thesis unfolding Let_def using f(2,3,5) t s by blast
  qed
  have li: "backed (run es w) \<and>
            (state (self (elapse d (run_frames (run es w)))) = Expanded \<or>
             state (self (elapse d (run_frames (run es w)))) = Collapsed)"
    if b: "backed w"
    using run_backed [OF b, of es] backed_settles [OF run_backed [OF b, of es] assms(4)]
    by blast
  show ?thesis using ex co li by blast
qed

theorem transition_reaches_terminal_state_witness:
  "state (self (elapse 50000 (animation_frame 0
      (expandAccordion False (mounted 0 (Some ''panel-1'') NoValue))))) = Expanded \<and>
   max_height (divs (elapse 50000 (animation_frame 0
      (expandAccordion False (mounted 0 (Some ''panel-1'') NoValue)))) 1) = None \<and>
   state (self (elapse 50000 (animation_frame 0
      (collapseAccordion False (mounted 0 (Some ''panel-1'') (Single ''panel-1'')))))) = Collapsed \<and>
   max_height (divs (elapse 50000 (animation_frame 0
      (collapseAccordion False (mounted 0 (Some ''panel-1'') (Single ''panel-1''))))) 1) = None \<and>
   backed (mounted 0 (Some ''panel-1'') NoValue) \<and>
   backed (run [GroupChange 0 (Single ''panel-1''), Frame, GroupChange 0 NoValue]
      (mounted 0 (Some ''panel-1'') NoValue)) \<and>
   (state (self (elapse 50000 (run_frames
      (run [GroupChange 0 (Single ''panel-1''), Frame, GroupChange 0 NoValue]
        (mounted 0 (Some ''panel-1'') NoValue))))) = Expanded \<or>
    state (self (elapse 50000 (run_frames
      (run [GroupChange 0 (Single ''panel-1''), Frame, GroupChange 0 NoValue]
        (mounted 0 (Some ''panel-1'') NoValue))))) = Collapsed)"
proof -
  have m: "contentEl (self (mounted 0 v gv)) = Some 1"
    "contentElWrapper (self (mounted 0 v gv)) = Some 2"
    "next_handle (mounted 0 v gv) \<notin> fst ` set (frames (mounted 0 v gv))" for v gv
    by (simp_all add: all_defs split: option.splits)
  have d: "(50000::nat) \<le> 50000" by simp
  have e: "state (self (mounted 0 (Some ''panel-1'') NoValue)) = Collapsed"
    "next_handle (mounted 0 (Some ''panel-1'') NoValue) = 0"
    "backed (mounted 0 (Some ''panel-1'') NoValue)"
    by (simp_all add: backed_def all_defs)
  have c: "state (self (mounted 0 (Some ''panel-1'') (Single ''panel-1''))) = Expanded"
    "next_handle (mounted 0 (Some ''panel-1'') (Single ''panel-1'')) = 0"
    by (simp_all add: all_defs)
  show ?thesis
    using transition_reaches_terminal_state [OF m d, of "Some ''panel-1''" NoValue
        "[GroupChange 0 (Single ''panel-1''), Frame, GroupChange 0 NoValue]"]
      transition_reaches_terminal_state [OF m d, of "Some ''panel-1''" "Single ''panel-1''" "[]"]
    by (simp add: e c Let_def)
qed

subsection \<open>The same selection applied again\<close>

lemma updateState_in_target_state:
  assumes "value_prop (self w) = Some v" and "accordionGroupEl (self w) = Some g"
    and "state (self w) =
           (if includes_value (group_value (groups w g)) v then Expanded else Collapsed)"
  shows "frames (updateState False w) = frames w \<and>
         waits (updateState False w) = waits w \<and>
         trace (updateState False w) = trace w \<and>
         next_handle (updateState False w) = next_handle w \<and>
         currentRaf (self (updateState False w)) = currentRaf (self w) \<and>
         state (self (updateState False w)) = state (self w) \<and>
         divs (updateState False w) = divs w"
proof (cases "includes_value (group_value (groups w g)) v")
  case True
  then have "expandAccordion False w = w" using assms(3) by (simp add: expandAccordion_def)
  then show ?thesis by (simp add: updateState_expand_branch [OF assms(1,2) True])
next
  case False
  then have "collapseAccordion False w = w" using assms(3) by (simp add: collapseAccordion_def)
  then show ?thesis by (simp add: updateState_collapse_branch [OF assms(1,2) False])
qed

lemma run_callback_self:
  "value_prop (self (run_callback cb w)) = value_prop (self w) \<and>
   accordionGroupEl (self (run_callback cb w)) = accordionGroupEl (self w) \<and>
   groups (run_callback cb w) = groups w"
  by (cases cb) (simp_all add: prim_defs)

lemma run_continuation_self:
  "value_prop (self (run_continuation k w)) = value_prop (self w) \<and>
   accordionGroupEl (self (run_continuation k w)) = accordionGroupEl (self w) \<and>
   groups (run_continuation k w) = groups w"
  by (cases k) (simp_all add: prim_defs)

lemma fold_callbacks_self:
  "value_prop (self (fold (\<lambda>f. run_callback (snd f)) fs w)) = value_prop (self w) \<and>
   accordionGroupEl (self (fold (\<lambda>f. run_callback (snd f)) fs w)) = accordionGroupEl (self w) \<and>
   groups (fold (\<lambda>f. run_callback (snd f)) fs w) = groups w"
  by (induction fs arbitrary: w) (simp_all add: run_callback_self del: run_callback.simps)

lemma fold_continuations_self:
  "value_prop (self (fold (\<lambda>x. run_continuation (resume x)) xs w)) = value_prop (self w) \<and>
   accordionGroupEl (self (fold (\<lambda>x. run_continuation (resume x)) xs w)) =
     accordionGroupEl (self w) \<and>
   groups (fold (\<lambda>x. run_continuation (resume x)) xs w) = groups w"
  by (induction xs arbitrary: w) (simp_all add: run_continuation_self del: run_continuation.simps)

lemma settle_self:
  "value_prop (self (settle w)) = value_prop (self w) \<and>
   accordionGroupEl (self (settle w)) = accordionGroupEl (self w) \<and>
   groups (settle w) = groups w"
  by (simp add: settle_def resolve_waits_def run_frames_def fold_continuations_self
      fold_callbacks_self)

lemma settle_quiet:
  assumes "frames w = []" and "waits w = []"
  shows "settle w = w"
  using assms by (simp add: settle_def run_frames_def resolve_waits_def)

lemma settle_one_frame:
  assumes "frames w = [(h, cb)]" and "waits w = []"
  shows "state (self (settle w)) =
           (case cb of ExpandFrame c cw \<Rightarrow> Expanded | CollapseFrame c \<Rightarrow> Collapsed)"
    and "frames (settle w) = []" and "waits (settle w) = []"
  using assms
  by (cases cb; simp add: settle_def run_frames_def resolve_waits_def prim_defs)+

lemma updateState_quiet_settles:
  assumes v: "value_prop (self w) = Some v" and g: "accordionGroupEl (self w) = Some g"
    and c: "contentEl (self w) = Some c" and cw: "contentElWrapper (self w) = Some cw"
    and q: "frames w = []" "waits w = []"
  shows "state (self (settle (updateState False w))) =
           (if includes_value (group_value (groups w g)) v then Expanded else Collapsed) \<and>
         frames (settle (updateState False w)) = [] \<and>
         waits (settle (updateState False w)) = []"
proof (cases "includes_value (group_value (groups w g)) v")
  case True
  note u = updateState_expand_branch [OF v g True, of False]
  show ?thesis
  proof (cases "state (self w) = Expanded")
    case e: True
    then have "expandAccordion False w = w" by (simp add: expandAccordion_def)
    then have "frames (updateState False w) = []" "waits (updateState False w) = []"
      "state (self (updateState False w)) = Expanded"
      using q e by (simp_all add: u)
    then show ?thesis using True by (simp add: settle_quiet)
  next
    case False
    note s = expandAccordion_scheduled [OF False c cw]
    have f: "frames (updateState False w) = [(next_handle w, ExpandFrame c cw)]"
      using q by (simp add: u s split: option.splits)
    have w: "waits (updateState False w) = []" using q by (simp add: u s)
    show ?thesis using True settle_one_frame [OF f w] by simp
  qed
next
  case False
  note u = updateState_collapse_branch [OF v g False, of False]
  show ?thesis
  proof (cases "state (self w) = Collapsed")
    case e: True
    then have "collapseAccordion False w = w" by (simp add: collapseAccordion_def)
    then have "frames (updateState False w) = []" "waits (updateState False w) = []"
      "state (self (updateState False w)) = Collapsed"
      using q e by (simp_all add: u)
    then show ?thesis using False by (simp add: settle_quiet)
  next
    case n: False
    note s = collapseAccordion_scheduled [OF n c]
    have f: "frames (updateState False w) = [(next_handle w, CollapseFrame c)]"
      using q by (simp add: u s split: option.splits)
    have w: "waits (updateState False w) = []" using q by (simp add: u s)
    show ?thesis using False settle_one_frame [OF f w] by simp
  qed
qed

lemma updateState_self:
  "value_prop (self (updateState i w)) = value_prop (self w) \<and>
   accordionGroupEl (self (updateState i w)) = accordionGroupEl (self w) \<and>
   groups (updateState i w) = groups w"
  by (simp add: updateState_def expandAccordion_def collapseAccordion_def prim_defs Let_def
      split: option.splits)

text \<open>
  Claim C7, as the code has it. For an item with a group and a value that is already in
  the terminal state its selection asks for (Expanded if selected, Collapsed if not),
  \<open>updateState\<close> requests no frame, cancels none, begins no wait and assigns no state.
  In particular, for an item that has its content elements and no scheduled work: after
  one update and after that update's work has settled, the item is in that terminal
  state, and a second update with the same selection schedules nothing.
\<close>

theorem updateState_again_schedules_nothing:
  assumes "value_prop (self w) = Some v" and "accordionGroupEl (self w) = Some g"
  shows "(state (self w) =
            (if includes_value (group_value (groups w g)) v then Expanded else Collapsed) \<longrightarrow>
          frames (updateState False w) = frames w \<and>
          waits (updateState False w) = waits w \<and>
          trace (updateState False w) = trace w \<and>
          next_handle (updateState False w) = next_handle w \<and>
          currentRaf (self (updateState False w)) = currentRaf (self w) \<and>
          state (self (updateState False w)) = state (self w) \<and>
          divs (updateState False w) = divs w) \<and>
         (contentEl (self w) \<noteq> None \<and> contentElWrapper (self w) \<noteq> None \<and>
          frames w = [] \<and> waits w = [] \<longrightarrow>
          (let w1 = settle (updateState False w)
           in state (self w1) =
                (if includes_value (group_value (groups w g)) v then Expanded else Collapsed) \<and>
              frames (updateState False w1) = [] \<and>
              waits (updateState False w1) = [] \<and>
              trace (updateState False w1) = trace w1 \<and>
              state (self (updateState False w1)) = state (self w1)))"
proof -
  have second: "let w1 = settle (updateState False w)
           in state (self w1) =
                (if includes_value (group_value (groups w g)) v then Expanded else Collapsed) \<and>
              frames (updateState False w1) = [] \<and>
              waits (updateState False w1) = [] \<and>
              trace (updateState False w1) = trace w1 \<and>
              state (self (updateState False w1)) = state (self w1)"
    if c: "contentEl (self w) = Some c" and cw: "contentElWrapper (self w) = Some cw"
      and q: "frames w = []" "waits w = []" for c cw
  proof -
    let ?w1 = "settle (updateState False w)"
    note t = updateState_quiet_settles [OF assms c cw q]
    have v1: "value_prop (self ?w1) = Some v" and g1: "accordionGroupEl (self ?w1) = Some g"
      and gr: "groups ?w1 = groups w"
      using assms by (simp_all add: settle_self updateState_self)
    have "state (self ?w1) =
            (if includes_value (group_value (groups ?w1 g)) v then Expanded else Collapsed)"
      using t by (simp add: gr)
    from updateState_in_target_state [OF v1 g1 this] t show ?thesis
      unfolding Let_def by simp
  qed
  show ?thesis
    using updateState_in_target_state [OF assms] second by auto
qed

theorem updateState_again_schedules_nothing_witness:
  "trace (settle (updateState False reselected)) =
     [StateAssigned Collapsed, StateAssigned Expanding, Raf 0,
      OffsetHeightRead 2, TransitionEndAsync 1 50000, SetMaxHeight 1 120, LayoutFlush 1,
      StateAssigned Expanded, RemoveMaxHeight 1] \<and>
   trace (updateState False (settle (updateState False reselected))) =
     [StateAssigned Collapsed, StateAssigned Expanding, Raf 0,
      OffsetHeightRead 2, TransitionEndAsync 1 50000, SetMaxHeight 1 120, LayoutFlush 1,
      StateAssigned Expanded, RemoveMaxHeight 1] \<and>
   frames (updateState False (settle (updateState False reselected))) = [] \<and>
   waits (updateState False (settle (updateState False reselected))) = [] \<and>
   state (self (mounted 0 (Some ''panel-1'') (Single ''panel-1''))) = Expanded \<and>
   frames (updateState False (mounted 0 (Some ''panel-1'') (Single ''panel-1''))) = []"
proof -
  let ?e = "mounted 0 (Some ''panel-1'') (Single ''panel-1'')"
  have h: "value_prop (self reselected) = Some ''panel-1''"
    "accordionGroupEl (self reselected) = Some 0"
    by (simp_all add: reselected_def all_defs)
  have k: "contentEl (self reselected) \<noteq> None" "contentElWrapper (self reselected) \<noteq> None"
    "frames reselected = []" "waits reselected = []"
    by (simp_all add: reselected_def all_defs)
  have t: "trace (settle (updateState False reselected)) =
     [StateAssigned Collapsed, StateAssigned Expanding, Raf 0,
      OffsetHeightRead 2, TransitionEndAsync 1 50000, SetMaxHeight 1 120, LayoutFlush 1,
      StateAssigned Expanded, RemoveMaxHeight 1]"
    by (simp add: reselected_def all_defs)
  have h': "value_prop (self ?e) = Some ''panel-1''" "accordionGroupEl (self ?e) = Some 0"
    by (simp_all add: all_defs)
  have k': "state (self ?e) = Expanded" "group_value (groups ?e 0) = Single ''panel-1''"
    "frames ?e = []"
    by (simp_all add: all_defs)
  show ?thesis
    using updateState_again_schedules_nothing [OF h] updateState_again_schedules_nothing [OF h']
    by (simp add: k t k' Let_def)
qed

text \<open>
  Claim C7 fails as stated, for a second update that arrives before the first one's
  transition is over: the guard looks at the terminal state only. Right after the first
  update the item is Expanding, so the second one cancels frame 0 and requests frame 1;
  and when the first frame has already run, the second update starts a second wait, and
  both completions take effect.
\<close>

theorem repeated_update_counterexample:
  "frames (run [GroupChange 0 (Single ''panel-1'')] (mounted 0 (Some ''panel-1'') NoValue)) =
     [(0, ExpandFrame 1 2)] \<and>
   frames (run [GroupChange 0 (Single ''panel-1''), GroupChange 0 (Single ''panel-1'')]
     (mounted 0 (Some ''panel-1'') NoValue)) = [(1, ExpandFrame 1 2)] \<and>
   trace (run [GroupChange 0 (Single ''panel-1''), GroupChange 0 (Single ''panel-1'')]
     (mounted 0 (Some ''panel-1'') NoValue)) =
     [StateAssigned Collapsed,
      StateAssigned Expanding, Raf 0,
      StateAssigned Expanding, CancelAnimationFrame 0, Raf 1] \<and>
   trace (run [GroupChange 0 (Single ''panel-1''), Frame,
               GroupChange 0 (Single ''panel-1''), Frame, Elapse 50000]
     (mounted 0 (Some ''panel-1'') NoValue)) =
     [StateAssigned Collapsed,
      StateAssigned Expanding, Raf 0,
      OffsetHeightRead 2, TransitionEndAsync 1 50000, SetMaxHeight 1 120, LayoutFlush 1,
      StateAssigned Expanding, CancelAnimationFrame 0, Raf 1,
      OffsetHeightRead 2, TransitionEndAsync 1 50000, SetMaxHeight 1 120, LayoutFlush 1,
      StateAssigned Expanded, RemoveMaxHeight 1,
      StateAssigned Expanded, RemoveMaxHeight 1]"
  by (simp add: all_defs)

subsection \<open>An expand that interrupts a collapse\<close>

text \<open>
  Claim C2, evaluated on the code. The second panel is Expanded; the group's value goes
  away, so a collapse frame is requested, and comes back before that frame runs. The
  expand returns at its \<open>state === Expanded\<close> guard: nothing is cancelled, the collapse
  frame stays queued, and the item settles in Collapsed although its value is selected.
  When the collapse frame has run before the value comes back (the state is Collapsing),
  the expand cancels a handle whose frame is no longer queued, and after settling both
  completions have taken effect, the collapse's first and the expand's last.
\<close>

theorem expand_during_collapse_evaluated:
  "state (self (mounted 1 (Some ''panel-2'') (Single ''panel-2''))) = Expanded \<and>
   frames (run [GroupChange 0 NoValue] (mounted 1 (Some ''panel-2'') (Single ''panel-2''))) =
     [(0, CollapseFrame 1)] \<and>
   frames (run [GroupChange 0 NoValue, GroupChange 0 (Single ''panel-2'')]
     (mounted 1 (Some ''panel-2'') (Single ''panel-2''))) = [(0, CollapseFrame 1)] \<and>
   trace (run [GroupChange 0 NoValue, GroupChange 0 (Single ''panel-2'')]
     (mounted 1 (Some ''panel-2'') (Single ''panel-2''))) = [StateAssigned Expanded, Raf 0] \<and>
   group_value (groups (settle (run [GroupChange 0 NoValue, GroupChange 0 (Single ''panel-2'')]
     (mounted 1 (Some ''panel-2'') (Single ''panel-2'')))) 0) = Single ''panel-2'' \<and>
   state (self (settle (run [GroupChange 0 NoValue, GroupChange 0 (Single ''panel-2'')]
     (mounted 1 (Some ''panel-2'') (Single ''panel-2''))))) = Collapsed \<and>
   state (self (run [GroupChange 0 NoValue, Frame]
     (mounted 1 (Some ''panel-2'') (Single ''panel-2'')))) = Collapsing \<and>
   frames (run [GroupChange 0 NoValue, Frame]
     (mounted 1 (Some ''panel-2'') (Single ''panel-2''))) = [] \<and>
   trace (settle (run [GroupChange 0 NoValue, Frame, GroupChange 0 (Single ''panel-2'')]
     (mounted 1 (Some ''panel-2'') (Single ''panel-2'')))) =
     [StateAssigned Expanded, Raf 0,
      OffsetHeightRead 1, SetMaxHeight 1 120, LayoutFlush 1, TransitionEndAsync 1 50000,
      StateAssigned Collapsing,
      StateAssigned Expanding, CancelAnimationFrame 0, Raf 1,
      OffsetHeightRead 2, TransitionEndAsync 1 50000, SetMaxHeight 1 120, LayoutFlush 1,
      StateAssigned Collapsed, RemoveMaxHeight 1,
      StateAssigned Expanded, RemoveMaxHeight 1]"
  by (simp add: all_defs)

end
